theory Spec2Isabelle
  imports Main "HOL-Library.Word" "HOL-Library.Signed_Division"
begin

text \<open>
  A shallow embedding of the request pipeline of the blueprint service: the sliding-window
  rate limiter and the metrics of \<^verbatim>\<open>handler/blueprint.go\<close>, and the cache store of
  package \<^verbatim>\<open>cache\<close> over its Redis backend. Mutable receivers are passed in and
  returned; the clock, the cancellation of the context and the faults of the backend are
  inputs.
\<close>

section \<open>Rate limiter of the request handler (handler/blueprint.go)\<close>

text \<open>
  \<^verbatim>\<open>time.Time\<close> is read as a number of nanoseconds on the process clock (an unbounded
  \<open>int\<close>), \<^verbatim>\<open>t.After(u)\<close> as \<open>u < t\<close> and \<^verbatim>\<open>now.Add(-window)\<close> as \<open>now - window\<close>.
  The reading of \<^verbatim>\<open>time.Now()\<close> is an input of the model.
\<close>

type_synonym time = int

record RateLimiter =
  requests :: "string \<rightharpoonup> time list"
  limit :: int
  window :: int

text \<open>The limiter built by \<^verbatim>\<open>NewBlueprint\<close>: limit 100, window one minute.\<close>

definition time_Minute :: int where
  "time_Minute = 60 * 1000000000"

definition NewRateLimiter :: RateLimiter where
  "NewRateLimiter = \<lparr>requests = Map.empty, limit = 100, window = time_Minute\<rparr>"

text \<open>The loop of \<^verbatim>\<open>checkRateLimit\<close> that collects the timestamps after \<^verbatim>\<open>windowStart\<close>.\<close>

primrec validRequests :: "time \<Rightarrow> time list \<Rightarrow> time list" where
  "validRequests windowStart [] = []"
| "validRequests windowStart (t # ts) =
     (if windowStart < t then t # validRequests windowStart ts
      else validRequests windowStart ts)"

definition checkRateLimit :: "RateLimiter \<Rightarrow> string \<Rightarrow> time \<Rightarrow> RateLimiter \<times> bool" where
  "checkRateLimit rl identifier now =
     (let windowStart = now - window rl in
      case requests rl identifier of
        None \<Rightarrow> (rl\<lparr>requests := (requests rl)(identifier \<mapsto> [now])\<rparr>, True)
      | Some reqs \<Rightarrow>
          (let valid = validRequests windowStart reqs in
           if limit rl \<le> int (length valid) then (rl, False)
           else (rl\<lparr>requests := (requests rl)(identifier \<mapsto> valid @ [now])\<rparr>, True)))"

text \<open>The timestamps stored for an identifier; none when the identifier is unknown.\<close>

definition stored :: "RateLimiter \<Rightarrow> string \<Rightarrow> time list" where
  "stored rl identifier = (case requests rl identifier of None \<Rightarrow> [] | Some ts \<Rightarrow> ts)"

text \<open>
  The admission algorithm in the words of the specification: keep the stored timestamps
  strictly after \<open>now - window\<close>; reject without recording when at least \<open>limit\<close> remain;
  otherwise append \<open>now\<close> and admit.
\<close>

definition Allow_spec :: "RateLimiter \<Rightarrow> string \<Rightarrow> time \<Rightarrow> RateLimiter \<times> bool" where
  "Allow_spec rl identifier now =
     (let kept = filter (\<lambda>t. now - window rl < t) (stored rl identifier) in
      if limit rl \<le> int (length kept) then (rl, False)
      else (rl\<lparr>requests := (requests rl)(identifier \<mapsto> kept @ [now])\<rparr>, True))"

text \<open>A sequence of admission checks for arbitrary identifiers; only the state is kept.\<close>

fun serve :: "RateLimiter \<Rightarrow> (string \<times> time) list \<Rightarrow> RateLimiter" where
  "serve rl [] = rl"
| "serve rl ((identifier, t) # cs) = serve (fst (checkRateLimit rl identifier t)) cs"

text \<open>The number of checks for one identifier that such a sequence admits.\<close>

fun admissions :: "RateLimiter \<Rightarrow> (string \<times> time) list \<Rightarrow> string \<Rightarrow> nat" where
  "admissions rl [] i = 0"
| "admissions rl ((identifier, t) # cs) i =
     (if identifier = i \<and> snd (checkRateLimit rl identifier t) then 1 else 0)
     + admissions (fst (checkRateLimit rl identifier t)) cs i"


section \<open>The cache store (package cache)\<close>

subsection \<open>The backend\<close>

text \<open>
  The go-redis client and the server behind it are outside the repository. They are
  modelled by the entries the server holds (payload and time to live in whole seconds, as
  last written), a script of faults and a count of round trips. Each round trip consumes
  one flag of the script; \<open>True\<close> makes the command fail with a connection-class error
  and leaves the entries alone, and an exhausted script means no further faults.
  \<^verbatim>\<open>DEL\<close> reports how many of the named keys it removed, \<^verbatim>\<open>GET\<close> of a missing key
  reports \<^verbatim>\<open>redis.Nil\<close>, and \<^verbatim>\<open>SETEX\<close> answers a time to live that is not positive
  with an error reply and stores nothing, as the Redis commands do. The server expiring an
  entry between two commands is not modelled.
\<close>

type_synonym bytes = string
type_synonym duration = "64 word"
type_synonym int64 = "64 word"
type_synonym uint64 = "64 word"

datatype redis_error = redis_Nil | redis_Failure | redis_InvalidExpire

record Redis =
  entries :: "string \<rightharpoonup> bytes \<times> int64"
  faults :: "bool list"
  roundtrips :: nat

text \<open>Division of \<^verbatim>\<open>int64\<close> values truncates towards zero.\<close>

definition int64_div :: "64 word \<Rightarrow> 64 word \<Rightarrow> 64 word" where
  "int64_div a b = word_of_int (sint a sdiv sint b)"

definition time_Second :: duration where
  "time_Second = 1000000000"

text \<open>
  The seconds the client sends for a duration (\<^verbatim>\<open>formatSec\<close> of go-redis): a positive
  duration below one second is sent as one second, any other duration as its whole
  seconds.
\<close>

definition formatSec :: "duration \<Rightarrow> int64" where
  "formatSec dur =
     (if 0 < sint dur \<and> sint dur < sint time_Second then 1 else int64_div dur time_Second)"

definition faulty :: "Redis \<Rightarrow> bool" where
  "faulty r = (case faults r of [] \<Rightarrow> False | f # fs \<Rightarrow> f)"

definition roundtrip :: "Redis \<Rightarrow> Redis" where
  "roundtrip r = r\<lparr>faults := drop 1 (faults r), roundtrips := roundtrips r + 1\<rparr>"

definition redis_SetEx ::
  "Redis \<Rightarrow> string \<Rightarrow> bytes \<Rightarrow> duration \<Rightarrow> Redis \<times> redis_error option" where
  "redis_SetEx r key data ttl =
     (if faulty r then (roundtrip r, Some redis_Failure)
      else if sint (formatSec ttl) \<le> 0 then (roundtrip r, Some redis_InvalidExpire)
      else ((roundtrip r)\<lparr>entries := (entries r)(key \<mapsto> (data, formatSec ttl))\<rparr>, None))"

definition redis_Get :: "Redis \<Rightarrow> string \<Rightarrow> Redis \<times> (redis_error + bytes)" where
  "redis_Get r key =
     (if faulty r then (roundtrip r, Inl redis_Failure)
      else case entries r key of
             None \<Rightarrow> (roundtrip r, Inl redis_Nil)
           | Some (data, ttl) \<Rightarrow> (roundtrip r, Inr data))"

primrec del_keys :: "(string \<rightharpoonup> 'a) \<Rightarrow> string list \<Rightarrow> (string \<rightharpoonup> 'a) \<times> int" where
  "del_keys m [] = (m, 0)"
| "del_keys m (k # ks) =
     (case m k of
        None \<Rightarrow> del_keys m ks
      | Some v \<Rightarrow> (case del_keys (m(k := None)) ks of (m', n) \<Rightarrow> (m', n + 1)))"

definition redis_Del :: "Redis \<Rightarrow> string list \<Rightarrow> Redis \<times> (redis_error + int)" where
  "redis_Del r keys =
     (if faulty r then (roundtrip r, Inl redis_Failure)
      else case del_keys (entries r) keys of
             (m, n) \<Rightarrow> ((roundtrip r)\<lparr>entries := m\<rparr>, Inr n))"

text \<open>
  A pipeline of \<^verbatim>\<open>GET\<close> commands: one round trip for all of them and none when the
  pipeline is empty. \<^verbatim>\<open>Exec\<close> returns the replies and the first error among them.
\<close>

primrec first_error :: "(redis_error + bytes) list \<Rightarrow> redis_error option" where
  "first_error [] = None"
| "first_error (c # cs) = (case c of Inl e \<Rightarrow> Some e | Inr d \<Rightarrow> first_error cs)"

definition get_reply :: "Redis \<Rightarrow> string \<Rightarrow> redis_error + bytes" where
  "get_reply r key = (case entries r key of None \<Rightarrow> Inl redis_Nil | Some (data, ttl) \<Rightarrow> Inr data)"

definition redis_Pipeline_Get ::
  "Redis \<Rightarrow> string list \<Rightarrow> Redis \<times> (redis_error + bytes) list \<times> redis_error option" where
  "redis_Pipeline_Get r keys =
     (if keys = [] then (r, [], None)
      else if faulty r then (roundtrip r, map (\<lambda>k. Inl redis_Failure) keys, Some redis_Failure)
      else (roundtrip r, map (get_reply r) keys, first_error (map (get_reply r) keys)))"

subsection \<open>Serialization\<close>

text \<open>
  \<^verbatim>\<open>json.Marshal\<close> and \<^verbatim>\<open>json.Unmarshal\<close> for the value type at hand are parameters;
  \<open>None\<close> is their error.
\<close>

record 'v json =
  Marshal :: "'v \<Rightarrow> bytes option"
  Unmarshal :: "bytes \<Rightarrow> 'v option"

subsection \<open>Cache and statistics\<close>

definition time_Millisecond :: duration where
  "time_Millisecond = 1000000"

definition time_Hour :: duration where
  "time_Hour = 3600 * 1000000000"

definition defaultPrefix :: string where
  "defaultPrefix = ''blueprint''"

definition defaultExpiration :: duration where
  "defaultExpiration = time_Hour"

definition const_maxRetries :: int where
  "const_maxRetries = 3"

definition retryDelay :: duration where
  "retryDelay = time_Millisecond * 100"

record Options =
  Prefix :: string
  Expiration :: duration
  MaxRetries :: int

record CacheStats =
  Hits :: uint64
  Misses :: uint64
  Sets :: uint64
  Deletes :: uint64

record Cache =
  redis :: Redis
  prefix :: string
  expiration :: duration
  maxRetries :: int
  stats :: CacheStats

datatype cache_error =
    MarshalError
  | SetRetriesError string int
  | SetError string
  | NotFound string
  | GetError string
  | UnmarshalError
  | DeleteError
  | DeleteCountError nat int
  | PipelineError

definition NewCacheWithOptions :: "Redis \<Rightarrow> Options \<Rightarrow> Cache" where
  "NewCacheWithOptions r opts =
     \<lparr>redis = r,
      prefix = (if Prefix opts = [] then defaultPrefix else Prefix opts),
      expiration = (if Expiration opts = 0 then defaultExpiration else Expiration opts),
      maxRetries = (if MaxRetries opts = 0 then const_maxRetries else MaxRetries opts),
      stats = \<lparr>Hits = 0, Misses = 0, Sets = 0, Deletes = 0\<rparr>\<rparr>"

definition NewCache :: "Redis \<Rightarrow> Cache" where
  "NewCache r = NewCacheWithOptions r
     \<lparr>Prefix = defaultPrefix, Expiration = defaultExpiration, MaxRetries = const_maxRetries\<rparr>"

definition createKey :: "Cache \<Rightarrow> string \<Rightarrow> string" where
  "createKey c key = prefix c @ '':'' @ key"

definition incrementStatsBy :: "Cache \<Rightarrow> string \<Rightarrow> uint64 \<Rightarrow> Cache" where
  "incrementStatsBy c statType count =
     (if statType = ''hits'' then c\<lparr>stats := (stats c)\<lparr>Hits := Hits (stats c) + count\<rparr>\<rparr>
      else if statType = ''misses'' then c\<lparr>stats := (stats c)\<lparr>Misses := Misses (stats c) + count\<rparr>\<rparr>
      else if statType = ''sets'' then c\<lparr>stats := (stats c)\<lparr>Sets := Sets (stats c) + count\<rparr>\<rparr>
      else if statType = ''deletes'' then c\<lparr>stats := (stats c)\<lparr>Deletes := Deletes (stats c) + count\<rparr>\<rparr>
      else c)"

definition incrementStats :: "Cache \<Rightarrow> string \<Rightarrow> Cache" where
  "incrementStats c statType = incrementStatsBy c statType 1"

subsection \<open>Set and SetWithTTL\<close>

text \<open>
  The retry loop of \<^verbatim>\<open>Set\<close>, from attempt \<open>i\<close> on. The durations passed to
  \<^verbatim>\<open>time.Sleep\<close> are collected in order. \<^verbatim>\<open>errors.Wrapf\<close> of a nil error is nil.
\<close>

function Set_loop ::
  "Cache \<Rightarrow> string \<Rightarrow> bytes \<Rightarrow> int \<Rightarrow> redis_error option \<Rightarrow> duration list
     \<Rightarrow> Cache \<times> duration list \<times> cache_error option" where
  "Set_loop c fullKey data i lastErr slept =
     (if i < maxRetries c then
        (case redis_SetEx (redis c) fullKey data (expiration c) of
           (r, None) \<Rightarrow> (incrementStats (c\<lparr>redis := r\<rparr>) ''sets'', slept, None)
         | (r, Some err) \<Rightarrow>
             Set_loop (c\<lparr>redis := r\<rparr>) fullKey data (i + 1) (Some err)
               (if i < maxRetries c - 1 then slept @ [retryDelay * word_of_int (i + 1)]
                else slept))
      else (c, slept, map_option (\<lambda>e. SetRetriesError fullKey (maxRetries c)) lastErr))"
  by pat_completeness auto
termination
  by (relation "measure (\<lambda>(c, fullKey, data, i, lastErr, slept). nat (maxRetries c - i))") auto

definition Cache_Set ::
  "Cache \<Rightarrow> 'v json \<Rightarrow> string \<Rightarrow> 'v \<Rightarrow> Cache \<times> duration list \<times> cache_error option" where
  "Cache_Set c js key val =
     (case Marshal js val of
        None \<Rightarrow> (c, [], Some MarshalError)
      | Some data \<Rightarrow> Set_loop c (createKey c key) data 0 None [])"

definition Cache_SetWithTTL ::
  "Cache \<Rightarrow> 'v json \<Rightarrow> string \<Rightarrow> 'v \<Rightarrow> duration \<Rightarrow> Cache \<times> cache_error option" where
  "Cache_SetWithTTL c js key val ttl =
     (case Marshal js val of
        None \<Rightarrow> (c, Some MarshalError)
      | Some data \<Rightarrow>
          (let fullKey = createKey c key in
           case redis_SetEx (redis c) fullKey data ttl of
             (r, Some err) \<Rightarrow> (c\<lparr>redis := r\<rparr>, Some (SetError fullKey))
           | (r, None) \<Rightarrow> (incrementStats (c\<lparr>redis := r\<rparr>) ''sets'', None)))"

subsection \<open>Get\<close>

text \<open>The right summand is the value written to \<^verbatim>\<open>dest\<close> when \<^verbatim>\<open>Get\<close> returns nil.\<close>

definition Cache_Get :: "Cache \<Rightarrow> 'v json \<Rightarrow> string \<Rightarrow> Cache \<times> (cache_error + 'v)" where
  "Cache_Get c js key =
     (let fullKey = createKey c key in
      case redis_Get (redis c) fullKey of
        (r, Inl err) \<Rightarrow>
          (if err = redis_Nil then (incrementStats (c\<lparr>redis := r\<rparr>) ''misses'', Inl (NotFound fullKey))
           else (c\<lparr>redis := r\<rparr>, Inl (GetError fullKey)))
      | (r, Inr data) \<Rightarrow>
          (case Unmarshal js data of
             None \<Rightarrow> (c\<lparr>redis := r\<rparr>, Inl UnmarshalError)
           | Some v \<Rightarrow> (incrementStats (c\<lparr>redis := r\<rparr>) ''hits'', Inr v)))"

subsection \<open>Delete\<close>

definition Cache_Delete :: "Cache \<Rightarrow> string list \<Rightarrow> Cache \<times> cache_error option" where
  "Cache_Delete c keys =
     (if length keys = 0 then (c, None)
      else
        (let fullKeys = map (createKey c) keys in
         case redis_Del (redis c) fullKeys of
           (r, Inl err) \<Rightarrow> (c\<lparr>redis := r\<rparr>, Some DeleteError)
         | (r, Inr deleted) \<Rightarrow>
             (let c' = incrementStats (c\<lparr>redis := r\<rparr>) ''deletes'' in
              if deleted \<noteq> int (length keys)
              then (c', Some (DeleteCountError (length keys) deleted))
              else (c', None))))"

subsection \<open>GetBatch\<close>

text \<open>
  The loop of \<^verbatim>\<open>GetBatch\<close> over the replies, each with its requested key: destination
  map, hits and misses so far.
\<close>

primrec collect ::
  "'v json \<Rightarrow> (string \<times> (redis_error + bytes)) list \<Rightarrow> (string \<rightharpoonup> 'v) \<times> uint64 \<times> uint64
     \<Rightarrow> (string \<rightharpoonup> 'v) \<times> uint64 \<times> uint64" where
  "collect js [] acc = acc"
| "collect js (kc # kcs) acc =
     (case acc of (dest, hits, misses) \<Rightarrow>
        (case snd kc of
           Inr data \<Rightarrow>
             (case Unmarshal js data of
                Some v \<Rightarrow> collect js kcs (dest(fst kc \<mapsto> v), hits + 1, misses)
              | None \<Rightarrow> collect js kcs (dest, hits, misses))
         | Inl err \<Rightarrow>
             (if err = redis_Nil then collect js kcs (dest, hits, misses + 1)
              else collect js kcs (dest, hits, misses))))"

definition Cache_GetBatch ::
  "Cache \<Rightarrow> 'v json \<Rightarrow> string list \<Rightarrow> (string \<rightharpoonup> 'v)
     \<Rightarrow> Cache \<times> (string \<rightharpoonup> 'v) \<times> cache_error option" where
  "Cache_GetBatch c js keys dest =
     (let fullKeys = map (createKey c) keys in
      case redis_Pipeline_Get (redis c) fullKeys of
        (r, cmds, err) \<Rightarrow>
          (if err \<noteq> None \<and> err \<noteq> Some redis_Nil then (c\<lparr>redis := r\<rparr>, dest, Some PipelineError)
           else
             (case collect js (zip keys cmds) (dest, 0, 0) of
                (dest', hits, misses) \<Rightarrow>
                  (incrementStatsBy (incrementStatsBy (c\<lparr>redis := r\<rparr>) ''hits'' hits)
                     ''misses'' misses, dest', None))))"

section \<open>The request handler (handler/blueprint.go)\<close>

record CallRequest =
  Name :: string

record CallResponse =
  Msg :: string

record Metrics =
  TotalRequests :: uint64
  SuccessfulCalls :: uint64
  FailedCalls :: uint64
  CacheHits :: uint64
  CacheMisses :: uint64
  AvgResponseTime :: duration

text \<open>
  The handler with the state the pipeline changes: cache, metrics and rate limiter. It is
  taken to be built with a cache and a logger (a nil one would panic at its first use);
  the logger and the database have no effect on results or state and are left out.
\<close>

record Blueprint =
  Cache :: Cache
  metrics :: Metrics
  rateLimiter :: RateLimiter

definition NewBlueprint :: "Cache \<Rightarrow> Blueprint" where
  "NewBlueprint c =
     \<lparr>Cache = c,
      metrics = \<lparr>TotalRequests = 0, SuccessfulCalls = 0, FailedCalls = 0,
                 CacheHits = 0, CacheMisses = 0, AvgResponseTime = 0\<rparr>,
      rateLimiter = NewRateLimiter\<rparr>"

text \<open>
  What one request reads from its surroundings: the clock at the admission check, the
  time elapsed when the deferred hook runs, and whether the context is done when the
  business logic looks at it.
\<close>

record Env =
  clock :: time
  elapsed :: duration
  cancelled :: bool

datatype code = InvalidArgument | ResourceExhausted | Internal

datatype status = Status code string

text \<open>
  The outcome of \<^verbatim>\<open>Call\<close>: a response, a status error, or the panic of dereferencing a
  nil request.
\<close>

datatype call_result = Response CallResponse | Error status | Panic

definition validateRequest :: "CallRequest option \<Rightarrow> string option" where
  "validateRequest req =
     (case req of
        None \<Rightarrow> Some ''request is nil''
      | Some r \<Rightarrow>
          if Name r = [] then Some ''name is required''
          else if 100 < length (Name r) then Some ''name is too long''
          else None)"

text \<open>
  The query \<^verbatim>\<open>processBusinessLogic\<close> sends to the database only logs a warning when it
  fails, so the database is left out; what remains is the check of the context.
\<close>

definition processBusinessLogic :: "Env \<Rightarrow> string option" where
  "processBusinessLogic env = (if cancelled env then Some ''context done'' else None)"

definition recordMetrics :: "Blueprint \<Rightarrow> duration \<Rightarrow> string option \<Rightarrow> Blueprint" where
  "recordMetrics b d err =
     (let m1 = (metrics b)\<lparr>TotalRequests := TotalRequests (metrics b) + 1\<rparr>;
          m2 = (if err = None then m1\<lparr>SuccessfulCalls := SuccessfulCalls m1 + 1\<rparr>
                else m1\<lparr>FailedCalls := FailedCalls m1 + 1\<rparr>);
          m3 = (if AvgResponseTime m2 = 0 then m2\<lparr>AvgResponseTime := d\<rparr>
                else m2\<lparr>AvgResponseTime := int64_div (AvgResponseTime m2 + d) 2\<rparr>)
      in b\<lparr>metrics := m3\<rparr>)"

definition incrementCacheHit :: "Blueprint \<Rightarrow> Blueprint" where
  "incrementCacheHit b = b\<lparr>metrics := (metrics b)\<lparr>CacheHits := CacheHits (metrics b) + 1\<rparr>\<rparr>"

definition incrementCacheMiss :: "Blueprint \<Rightarrow> Blueprint" where
  "incrementCacheMiss b = b\<lparr>metrics := (metrics b)\<lparr>CacheMisses := CacheMisses (metrics b) + 1\<rparr>\<rparr>"

text \<open>The body of \<^verbatim>\<open>Call\<close>, before the deferred hook runs.\<close>

definition Call_body ::
  "Blueprint \<Rightarrow> Env \<Rightarrow> CallResponse json \<Rightarrow> CallRequest option \<Rightarrow> Blueprint \<times> call_result" where
  "Call_body b env js req =
     (case validateRequest req of
        Some msg \<Rightarrow> (b, Error (Status InvalidArgument msg))
      | None \<Rightarrow>
          (case req of
             None \<Rightarrow> (b, Panic)
           | Some r \<Rightarrow>
               (case checkRateLimit (rateLimiter b) (Name r) (clock env) of
                  (rl, False) \<Rightarrow>
                    (b\<lparr>rateLimiter := rl\<rparr>, Error (Status ResourceExhausted ''rate limit exceeded''))
                | (rl, True) \<Rightarrow>
                    (let b1 = b\<lparr>rateLimiter := rl\<rparr>;
                         cacheKey = ''call:'' @ Name r in
                     case Cache_Get (Cache b1) js cacheKey of
                       (c, Inr cachedResponse) \<Rightarrow>
                         (incrementCacheHit (b1\<lparr>Cache := c\<rparr>), Response cachedResponse)
                     | (c, Inl err) \<Rightarrow>
                         (let b2 = incrementCacheMiss (b1\<lparr>Cache := c\<rparr>);
                              response = \<lparr>Msg = ''Hello '' @ Name r @ '' from Forex Platform''\<rparr> in
                          case processBusinessLogic env of
                            Some err \<Rightarrow> (b2, Error (Status Internal ''internal server error''))
                          | None \<Rightarrow>
                              (case Cache_SetWithTTL (Cache b2) js cacheKey response
                                      (5 * word_of_int time_Minute) of
                                 (c', err) \<Rightarrow> (b2\<lparr>Cache := c'\<rparr>, Response response)))))))"

text \<open>
  \<^verbatim>\<open>Call\<close>: the deferred function runs once, when the body has returned, and calls
  \<^verbatim>\<open>recordMetrics\<close> with the elapsed time and a nil error.
\<close>

definition Call ::
  "Blueprint \<Rightarrow> Env \<Rightarrow> CallResponse json \<Rightarrow> CallRequest option \<Rightarrow> Blueprint \<times> call_result" where
  "Call b env js req =
     (case Call_body b env js req of
        (b', res) \<Rightarrow> (recordMetrics b' (elapsed env) None, res))"

text \<open>
  The number of characters of a name, as the specification counts a length: the bytes
  of its UTF-8 encoding that start a code point (all but the continuation bytes
  \<open>0x80\<close> to \<open>0xBF\<close>).
\<close>

definition characters :: "string \<Rightarrow> nat" where
  "characters name = length (filter (\<lambda>c. of_char c < (128::nat) \<or> (192::nat) \<le> of_char c) name)"

section \<open>Vocabulary of the statements\<close>

text \<open>The number of deletions the backend reports when it serves \<^verbatim>\<open>Delete\<close> of the keys.\<close>

definition reported :: "Cache \<Rightarrow> string list \<Rightarrow> int" where
  "reported c keys = snd (del_keys (entries (redis c)) (map (createKey c) keys))"

text \<open>
  The payload the backend holds for a logical key, and what it deserializes to; \<open>None\<close>
  for an absent key and for a payload that does not deserialize.
\<close>

definition fetched :: "Cache \<Rightarrow> string \<Rightarrow> bytes option" where
  "fetched c key = map_option fst (entries (redis c) (createKey c key))"

definition decoded :: "Cache \<Rightarrow> 'v json \<Rightarrow> string \<Rightarrow> 'v option" where
  "decoded c js key = (case fetched c key of None \<Rightarrow> None | Some data \<Rightarrow> Unmarshal js data)"

text \<open>
  The number of attempts that fail before the first one that succeeds, among the next
  \<open>m\<close> round trips of the fault script.
\<close>

definition failures :: "nat \<Rightarrow> bool list \<Rightarrow> nat" where
  "failures m fs = length (takeWhile (\<lambda>f. f) (take m fs))"

text \<open>The sleeps \<open>retryDelay * j\<close> for \<open>j\<close> from \<open>lo\<close> to \<open>hi\<close>.\<close>

definition backoff :: "int \<Rightarrow> int \<Rightarrow> duration list" where
  "backoff lo hi = map (\<lambda>j. retryDelay * word_of_int j) [lo..hi]"

section \<open>Example values\<close>

text \<open>
  A serializer for responses whose payloads start with an opening brace, a backend with
  one payload that deserializes (key \<open>a\<close>) and one that does not (key \<open>b\<close>), the
  cache \<^verbatim>\<open>NewCache\<close> builds over it, the same cache over a backend with a fault script,
  and the surroundings of a request.
\<close>

definition example_json :: "CallResponse json" where
  "example_json =
     \<lparr>Marshal = (\<lambda>r. Some (CHR ''{'' # Msg r)),
      Unmarshal = (\<lambda>d. case d of [] \<Rightarrow> None
                         | c # m \<Rightarrow> if c = CHR ''{'' then Some \<lparr>Msg = m\<rparr> else None)\<rparr>"

definition example_redis :: Redis where
  "example_redis =
     \<lparr>entries = [''blueprint:a'' \<mapsto> (''{one'', 3600), ''blueprint:b'' \<mapsto> (''two'', 3600)],
      faults = [], roundtrips = 0\<rparr>"

definition example_cache :: Cache where
  "example_cache = NewCache example_redis"

definition flaky_cache :: "bool list \<Rightarrow> Cache" where
  "flaky_cache fs = example_cache\<lparr>redis := example_redis\<lparr>faults := fs\<rparr>\<rparr>"

definition example_env :: Env where
  "example_env = \<lparr>clock = 0, elapsed = 5, cancelled = False\<rparr>"

section \<open>Properties of the rate limiter\<close>

subsection \<open>Basic facts\<close>

lemma validRequests_filter: "validRequests w ts = filter (\<lambda>t. w < t) ts"
  by (induction ts) simp_all

lemma checkRateLimit_limit [simp]: "limit (fst (checkRateLimit rl i t)) = limit rl"
  by (simp add: checkRateLimit_def Let_def split: option.splits)

lemma checkRateLimit_window [simp]: "window (fst (checkRateLimit rl i t)) = window rl"
  by (simp add: checkRateLimit_def Let_def split: option.splits)

lemma checkRateLimit_refines:
  assumes "1 \<le> limit rl"
  shows "checkRateLimit rl i t = Allow_spec rl i t"
  using assms
  by (simp add: checkRateLimit_def Allow_spec_def stored_def validRequests_filter Let_def
      split: option.splits)

lemma stored_Allow_spec:
  "stored (fst (Allow_spec rl i t)) j =
     (if j = i \<and> snd (Allow_spec rl i t)
      then filter (\<lambda>x. t - window rl < x) (stored rl i) @ [t]
      else stored rl j)"
  by (simp add: Allow_spec_def stored_def Let_def)

lemma snd_Allow_spec:
  "snd (Allow_spec rl i t) \<longleftrightarrow>
     int (length (filter (\<lambda>x. t - window rl < x) (stored rl i))) < limit rl"
  by (auto simp: Allow_spec_def Let_def)

lemma stored_checkRateLimit:
  assumes "1 \<le> limit rl"
  shows "stored (fst (checkRateLimit rl i t)) j =
     (if j = i \<and> snd (checkRateLimit rl i t)
      then filter (\<lambda>x. t - window rl < x) (stored rl i) @ [t]
      else stored rl j)"
  using assms by (simp add: checkRateLimit_refines stored_Allow_spec)

lemma snd_checkRateLimit:
  assumes "1 \<le> limit rl"
  shows "snd (checkRateLimit rl i t) \<longleftrightarrow>
     int (length (filter (\<lambda>x. t - window rl < x) (stored rl i))) < limit rl"
  using assms by (simp add: checkRateLimit_refines snd_Allow_spec)

lemma filter_filter_window:
  fixes t u w :: int
  assumes "u \<le> t"
  shows "filter (\<lambda>x. u - w < x \<and> t - w < x) xs = filter (\<lambda>x. t - w < x) xs"
  using assms by (induction xs) auto

lemma serve_limit [simp]: "limit (serve rl cs) = limit rl"
  by (induction rl cs rule: serve.induct) simp_all

lemma serve_window [simp]: "window (serve rl cs) = window rl"
  by (induction rl cs rule: serve.induct) simp_all

lemma length_stored_step:
  assumes "1 \<le> limit rl" and "\<forall>j. int (length (stored rl j)) \<le> limit rl"
  shows "int (length (stored (fst (checkRateLimit rl i t)) j)) \<le> limit rl"
  using assms snd_checkRateLimit[OF assms(1), of i t]
  by (simp add: stored_checkRateLimit)

lemma length_stored_serve:
  assumes "1 \<le> limit rl" and "\<forall>j. int (length (stored rl j)) \<le> limit rl"
  shows "int (length (stored (serve rl cs) j)) \<le> limit rl"
  using assms
proof (induction rl cs arbitrary: j rule: serve.induct)
  case (1 rl) then show ?case by simp
next
  case (2 rl i t cs)
  have "\<forall>j. int (length (stored (fst (checkRateLimit rl i t)) j)) \<le> limit (fst (checkRateLimit rl i t))"
    using length_stored_step[OF "2.prems"] by simp
  from "2.IH"[OF _ this] "2.prems"(1) show ?case by simp
qed

lemma upper_stored_step:
  assumes "1 \<le> limit rl" and "\<forall>j. \<forall>x \<in> set (stored rl j). x \<le> b" and "t \<le> b"
  shows "\<forall>x \<in> set (stored (fst (checkRateLimit rl i t)) j). x \<le> b"
  using assms by (auto simp: stored_checkRateLimit)

lemma upper_stored_serve:
  assumes "1 \<le> limit rl" and "\<forall>j. \<forall>x \<in> set (stored rl j). x \<le> b"
    and "\<forall>c \<in> set cs. snd c \<le> b"
  shows "\<forall>x \<in> set (stored (serve rl cs) j). x \<le> b"
  using assms
proof (induction rl cs arbitrary: j rule: serve.induct)
  case (1 rl) then show ?case by simp
next
  case (2 rl i t cs)
  have "\<forall>j. \<forall>x \<in> set (stored (fst (checkRateLimit rl i t)) j). x \<le> b"
    using upper_stored_step[OF "2.prems"(1,2)] "2.prems"(3) by auto
  from "2.IH"[OF _ this] "2.prems"(1,3) show ?case by simp
qed

lemma stored_empty: "requests rl = Map.empty \<Longrightarrow> stored rl j = []"
  by (simp add: stored_def)


lemma serve_admitted_count:
  assumes "1 \<le> limit rl"
    and "\<forall>c \<in> set cs. fst c = i \<longrightarrow> now - window rl < snd c \<and> snd c \<le> now"
  shows "length (filter (\<lambda>x. now - window rl < x) (stored (serve rl cs) i)) =
         length (filter (\<lambda>x. now - window rl < x) (stored rl i)) + admissions rl cs i"
  using assms
proof (induction rl cs arbitrary: rule: serve.induct)
  case (1 rl)
  then show ?case by simp
next
  case (2 rl j t cs)
  let ?r1 = "fst (checkRateLimit rl j t)"
  have l1: "1 \<le> limit ?r1" using "2.prems"(1) by simp
  have w1: "\<forall>c \<in> set cs. fst c = i \<longrightarrow> now - window ?r1 < snd c \<and> snd c \<le> now"
    using "2.prems"(2) by simp
  have IH: "length (filter (\<lambda>x. now - window rl < x) (stored (serve ?r1 cs) i)) =
         length (filter (\<lambda>x. now - window rl < x) (stored ?r1 i)) + admissions ?r1 cs i"
    using "2.IH" [OF l1 w1] by simp
  show ?case
  proof (cases "j = i \<and> snd (checkRateLimit rl j t)")
    case True
    then have t: "now - window rl < t" "t \<le> now" using "2.prems"(2) by auto
    have "stored ?r1 i = filter (\<lambda>x. t - window rl < x) (stored rl i) @ [t]"
      using True stored_checkRateLimit [OF "2.prems"(1), of j t i] by auto
    then have "length (filter (\<lambda>x. now - window rl < x) (stored ?r1 i)) =
        Suc (length (filter (\<lambda>x. now - window rl < x) (stored rl i)))"
      using t by (simp add: filter_filter_window)
    then show ?thesis using IH True by auto
  next
    case False
    then have "stored ?r1 i = stored rl i"
      using stored_checkRateLimit [OF "2.prems"(1), of j t i] by auto
    then show ?thesis using IH False by auto
  qed
qed

lemma min_expired_filter:
  fixes xs :: "int list"
  assumes "xs \<noteq> []" and "Min (set xs) \<le> w"
  shows "length (filter (\<lambda>x. w < x) xs) < length xs"
proof -
  have "Min (set xs) \<in> set xs" using assms(1) by (simp add: Min_in)
  then obtain x where "x \<in> set xs" "\<not> w < x" using assms(2) by auto
  then show ?thesis by (simp add: length_filter_less)
qed

text \<open>
  Claim C1. From the empty limiter of a handler whose limit is at least one (the fixed
  policy is limit 100, window 60 seconds), after any sequence of admission checks:
  \<^verbatim>\<open>checkRateLimit\<close> is the admission algorithm of the specification (it keeps the stored
  timestamps strictly after \<open>now - window\<close>, rejects without recording \<open>now\<close> when at
  least \<open>limit\<close> remain, and otherwise appends \<open>now\<close> and admits); when, among
  further checks, those of one identifier have clock readings inside the window that ends
  at \<open>now\<close> and at least \<open>limit\<close> of them were admitted, the next check of that
  identifier at \<open>now\<close> is rejected and leaves the state as it is; and when the earliest
  stored timestamp of an identifier is no later than \<open>now - window\<close>, the check at
  \<open>now\<close> is admitted.
\<close>

theorem checkRateLimit_sliding_window:
  assumes "requests rl0 = Map.empty" and "1 \<le> limit rl0" and "rl = serve rl0 calls"
  shows "checkRateLimit rl i now = Allow_spec rl i now
    \<and> (\<forall>more.
          limit rl \<le> int (admissions rl more i)
          \<and> (\<forall>c \<in> set more. fst c = i \<longrightarrow> now - window rl < snd c \<and> snd c \<le> now)
          \<longrightarrow> checkRateLimit (serve rl more) i now = (serve rl more, False))
    \<and> (stored rl i \<noteq> [] \<and> Min (set (stored rl i)) \<le> now - window rl
          \<longrightarrow> snd (checkRateLimit rl i now)
              \<and> stored (fst (checkRateLimit rl i now)) i =
                  filter (\<lambda>x. now - window rl < x) (stored rl i) @ [now])"
proof (intro conjI allI impI)
  have l: "1 \<le> limit rl" using assms by simp
  show "checkRateLimit rl i now = Allow_spec rl i now"
    using l by (rule checkRateLimit_refines)
  {
    fix more
    assume h: "limit rl \<le> int (admissions rl more i)
          \<and> (\<forall>c \<in> set more. fst c = i \<longrightarrow> now - window rl < snd c \<and> snd c \<le> now)"
    then have n: "limit rl \<le> int (admissions rl more i)"
      and w: "\<forall>c \<in> set more. fst c = i \<longrightarrow> now - window rl < snd c \<and> snd c \<le> now"
      by blast+
    let ?rl' = "serve rl more"
    have "length (filter (\<lambda>x. now - window rl < x) (stored ?rl' i)) =
         length (filter (\<lambda>x. now - window rl < x) (stored rl i)) + admissions rl more i"
      by (rule serve_admitted_count [OF l w])
    then have "limit ?rl' \<le> int (length (filter (\<lambda>x. now - window ?rl' < x) (stored ?rl' i)))"
      using n by simp
    then have "\<not> snd (Allow_spec ?rl' i now)" by (simp add: snd_Allow_spec)
    then have "Allow_spec ?rl' i now = (?rl', False)"
      by (auto simp: Allow_spec_def Let_def split: if_splits)
    moreover have "1 \<le> limit ?rl'" using l by simp
    ultimately show "checkRateLimit ?rl' i now = (?rl', False)"
      by (simp add: checkRateLimit_refines)
  }
  {
    assume h: "stored rl i \<noteq> [] \<and> Min (set (stored rl i)) \<le> now - window rl"
    have "\<forall>j. int (length (stored rl0 j)) \<le> limit rl0"
      using assms(1,2) by (simp add: stored_empty)
    then have "int (length (stored rl i)) \<le> limit rl"
      using length_stored_serve[OF assms(2), of calls i] assms(3) by simp
    moreover have "length (filter (\<lambda>x. now - window rl < x) (stored rl i)) < length (stored rl i)"
      using h by (simp add: min_expired_filter)
    ultimately show s: "snd (checkRateLimit rl i now)"
      using l by (simp add: snd_checkRateLimit)
    show "stored (fst (checkRateLimit rl i now)) i =
                  filter (\<lambda>x. now - window rl < x) (stored rl i) @ [now]"
      using s l by (simp add: stored_checkRateLimit)
  }
qed

theorem checkRateLimit_sliding_window_witness:
  "checkRateLimit (serve NewRateLimiter (map (\<lambda>n. (''alice'', int n)) [0..<100])) ''alice'' 100 =
     (serve NewRateLimiter (map (\<lambda>n. (''alice'', int n)) [0..<100]), False)
   \<and> snd (checkRateLimit (serve NewRateLimiter [(''alice'', 0)]) ''alice'' time_Minute)"
proof -
  let ?cs = "map (\<lambda>n. (''alice'', int n)) [0..<100]"
  have e: "requests NewRateLimiter = Map.empty" and l: "1 \<le> limit NewRateLimiter"
    by (simp_all add: NewRateLimiter_def)
  have r0: "NewRateLimiter = serve NewRateLimiter []" by simp
  have n: "admissions NewRateLimiter ?cs ''alice'' = 100" by code_simp
  have h: "limit NewRateLimiter \<le> int (admissions NewRateLimiter ?cs ''alice'')
      \<and> (\<forall>c \<in> set ?cs. fst c = ''alice'' \<longrightarrow>
            100 - window NewRateLimiter < snd c \<and> snd c \<le> 100)"
    unfolding n by (auto simp: NewRateLimiter_def time_Minute_def)
  have a: "checkRateLimit (serve NewRateLimiter ?cs) ''alice'' 100 = (serve NewRateLimiter ?cs, False)"
    using checkRateLimit_sliding_window [OF e l r0, of "''alice''" 100] h by blast
  have s: "stored (serve NewRateLimiter [(''alice'', 0)]) ''alice'' = [0]"
    by (simp add: NewRateLimiter_def checkRateLimit_def stored_def)
  let ?s = "serve NewRateLimiter [(''alice'', 0)]"
  have hc: "stored ?s ''alice'' \<noteq> []
      \<and> Min (set (stored ?s ''alice'')) \<le> time_Minute - window ?s"
    unfolding s by (simp add: NewRateLimiter_def)
  have b: "snd (checkRateLimit ?s ''alice'' time_Minute)"
    using checkRateLimit_sliding_window [OF e l refl, of "[(''alice'', 0)]" "''alice''" time_Minute] hc
    by blast
  from a b show ?thesis by (rule conjI)
qed

text \<open>
  Claim C8. From the empty limiter with limit at least one and a non-negative window,
  after any sequence of admission checks whose clock readings do not exceed \<open>now\<close>: the
  pruned sequence that the check at \<open>now\<close> computes holds only timestamps in
  \<open>[now - window, now]\<close>, and when that check admits, the sequence stored for the
  identifier holds only timestamps in \<open>[now - window, now]\<close> and has length at most
  \<open>limit\<close>.
\<close>

theorem rate_limiter_invariant:
  assumes "requests rl0 = Map.empty" and "1 \<le> limit rl0"
    and "\<forall>c \<in> set calls. snd c \<le> now"
    and "rl = serve rl0 calls" and "0 \<le> window rl0"
  shows "(\<forall>x \<in> set (validRequests (now - window rl) (stored rl i)).
            now - window rl \<le> x \<and> x \<le> now)
    \<and> (\<forall>rl'. checkRateLimit rl i now = (rl', True) \<longrightarrow>
          requests rl' i = Some (stored rl' i)
          \<and> (\<forall>x \<in> set (stored rl' i). now - window rl \<le> x \<and> x \<le> now)
          \<and> int (length (stored rl' i)) \<le> limit rl)"
proof (intro conjI allI impI)
  have l: "1 \<le> limit rl" using assms by simp
  have "\<forall>j. \<forall>x \<in> set (stored rl0 j). x \<le> now" using assms(1) by (simp add: stored_empty)
  then have up: "\<forall>x \<in> set (stored rl i). x \<le> now"
    using upper_stored_serve[OF assms(2) _ assms(3), of i] assms(4) by simp
  then show "\<forall>x \<in> set (validRequests (now - window rl) (stored rl i)).
            now - window rl \<le> x \<and> x \<le> now"
    by (auto simp: validRequests_filter)
  have "\<forall>j. int (length (stored rl0 j)) \<le> limit rl0"
    using assms(1,2) by (simp add: stored_empty)
  then have len: "\<forall>j. int (length (stored rl j)) \<le> limit rl"
    using length_stored_serve[OF assms(2), of calls] assms(4) by simp
  fix rl'
  assume c: "checkRateLimit rl i now = (rl', True)"
  then have st: "stored rl' i = filter (\<lambda>x. now - window rl < x) (stored rl i) @ [now]"
    using stored_checkRateLimit[OF l, of i now i] by simp
  show "requests rl' i = Some (stored rl' i)"
    using c by (auto simp: checkRateLimit_def stored_def Let_def split: option.splits if_splits)
  show "\<forall>x \<in> set (stored rl' i). now - window rl \<le> x \<and> x \<le> now"
    using st up assms(4,5) by auto
  show "int (length (stored rl' i)) \<le> limit rl"
    using length_stored_step[OF l len, of i now i] c by simp
qed

theorem rate_limiter_invariant_witness:
  "checkRateLimit (serve NewRateLimiter [(''alice'', 5)]) ''alice'' 7 =
     (NewRateLimiter\<lparr>requests := [''alice'' \<mapsto> [5, 7]]\<rparr>, True)
   \<and> list_all (\<lambda>x. 7 - time_Minute \<le> x \<and> x \<le> 7) [5, 7]
   \<and> int (length [5, 7 :: int]) \<le> 100"
proof -
  have e: "requests NewRateLimiter = Map.empty" and l: "1 \<le> limit NewRateLimiter"
    by (simp_all add: NewRateLimiter_def)
  have c: "\<forall>c \<in> set [(''alice'', 5 :: int)]. snd c \<le> 7" by simp
  have s: "checkRateLimit (serve NewRateLimiter [(''alice'', 5)]) ''alice'' 7 =
     (NewRateLimiter\<lparr>requests := [''alice'' \<mapsto> [5, 7]]\<rparr>, True)"
    by (simp add: NewRateLimiter_def checkRateLimit_def time_Minute_def)
  have t: "stored (NewRateLimiter\<lparr>requests := [''alice'' \<mapsto> [5, 7]]\<rparr>) ''alice'' = [5, 7]"
    by (simp add: stored_def)
  have w: "0 \<le> window NewRateLimiter" by (simp add: NewRateLimiter_def time_Minute_def)
  show ?thesis
    using rate_limiter_invariant [OF e l c refl w, of "''alice''"] s t
    by (simp add: NewRateLimiter_def)
qed

section \<open>Properties of the cache store\<close>

subsection \<open>Statistics, keys and the backend\<close>

lemma redis_incrementStatsBy [simp]: "redis (incrementStatsBy c t n) = redis c"
  and prefix_incrementStatsBy [simp]: "prefix (incrementStatsBy c t n) = prefix c"
  and expiration_incrementStatsBy [simp]: "expiration (incrementStatsBy c t n) = expiration c"
  and maxRetries_incrementStatsBy [simp]: "maxRetries (incrementStatsBy c t n) = maxRetries c"
  by (simp_all add: incrementStatsBy_def)

lemma stats_incrementStatsBy:
  "stats (incrementStatsBy c ''hits'' n) = (stats c)\<lparr>Hits := Hits (stats c) + n\<rparr>"
  "stats (incrementStatsBy c ''misses'' n) = (stats c)\<lparr>Misses := Misses (stats c) + n\<rparr>"
  "stats (incrementStatsBy c ''sets'' n) = (stats c)\<lparr>Sets := Sets (stats c) + n\<rparr>"
  "stats (incrementStatsBy c ''deletes'' n) = (stats c)\<lparr>Deletes := Deletes (stats c) + n\<rparr>"
  by (simp_all add: incrementStatsBy_def)

lemma createKey_update [simp]:
  "createKey (c\<lparr>redis := r\<rparr>) k = createKey c k"
  "createKey (c\<lparr>stats := s\<rparr>) k = createKey c k"
  by (simp_all add: createKey_def)

lemma del_keys_Cons:
  "del_keys m (k # ks) =
     (case m k of
        None \<Rightarrow> del_keys m ks
      | Some v \<Rightarrow> (fst (del_keys (m(k := None)) ks), snd (del_keys (m(k := None)) ks) + 1))"
  by (simp add: case_prod_beta split: option.splits)

lemma del_keys_fst: "fst (del_keys m ks) k = (if k \<in> set ks then None else m k)"
  by (induction ks arbitrary: m) (auto simp: del_keys_Cons simp del: del_keys.simps(2) split: option.splits)

lemma del_keys_bounds: "0 \<le> snd (del_keys m ks) \<and> snd (del_keys m ks) \<le> int (length ks)"
proof (induction ks arbitrary: m)
  case Nil then show ?case by simp
next
  case (Cons k ks)
  show ?case
  proof (cases "m k")
    case None then show ?thesis using Cons.IH[of m] by simp
  next
    case (Some v)
    have "0 \<le> snd (del_keys (m(k := None)) ks) \<and> snd (del_keys (m(k := None)) ks) \<le> int (length ks)"
      by (rule Cons.IH)
    then show ?thesis using Some by (simp add: del_keys_Cons del: del_keys.simps(2))
  qed
qed

lemma del_keys_absent:
  assumes "k \<in> set ks" and "m k = None"
  shows "snd (del_keys m ks) < int (length ks)"
  using assms
proof (induction ks arbitrary: m)
  case Nil then show ?case by simp
next
  case (Cons a ks)
  show ?case
  proof (cases "m a")
    case None
    then show ?thesis using del_keys_bounds[of m ks] by simp
  next
    case (Some v)
    then have "a \<noteq> k" using Cons.prems by auto
    then have "k \<in> set ks" "(m(a := None)) k = None" using Cons.prems by auto
    then have "snd (del_keys (m(a := None)) ks) < int (length ks)" by (rule Cons.IH)
    then show ?thesis using Some by (simp add: del_keys_Cons del: del_keys.simps(2))
  qed
qed

lemma Cache_Delete_faulty:
  assumes "keys \<noteq> []" and "faulty (redis c)"
  shows "Cache_Delete c keys = (c\<lparr>redis := roundtrip (redis c)\<rparr>, Some DeleteError)"
  using assms by (simp add: Cache_Delete_def redis_Del_def)

lemma Cache_Delete_healthy:
  assumes "keys \<noteq> []" and "\<not> faulty (redis c)"
  shows "Cache_Delete c keys =
    (incrementStats
       (c\<lparr>redis := (roundtrip (redis c))\<lparr>entries := fst (del_keys (entries (redis c)) (map (createKey c) keys))\<rparr>\<rparr>)
       ''deletes'',
     if snd (del_keys (entries (redis c)) (map (createKey c) keys)) < int (length keys)
     then Some (DeleteCountError (length keys) (snd (del_keys (entries (redis c)) (map (createKey c) keys))))
     else None)"
  using assms del_keys_bounds[of "entries (redis c)" "map (createKey c) keys"]
  by (auto simp: Cache_Delete_def redis_Del_def Let_def case_prod_beta)

subsection \<open>The example values\<close>

lemma example_cache_simps:
  "prefix example_cache = ''blueprint''"
  "redis example_cache = example_redis"
  "stats example_cache = \<lparr>Hits = 0, Misses = 0, Sets = 0, Deletes = 0\<rparr>"
  "maxRetries example_cache = 3"
  "expiration example_cache = time_Hour"
  by (simp_all add: example_cache_def NewCache_def NewCacheWithOptions_def defaultPrefix_def
      const_maxRetries_def defaultExpiration_def time_Hour_def)

lemma example_redis_simps:
  "faults example_redis = []"
  "roundtrips example_redis = 0"
  "entries example_redis ''blueprint:a'' = Some (''{one'', 3600)"
  "entries example_redis ''blueprint:b'' = Some (''two'', 3600)"
  "entries example_redis ''blueprint:zz'' = None"
  "\<not> faulty example_redis"
  by (simp_all add: example_redis_def faulty_def)

lemma flaky_cache_simps:
  "prefix (flaky_cache fs) = ''blueprint''"
  "maxRetries (flaky_cache fs) = 3"
  "expiration (flaky_cache fs) = time_Hour"
  "stats (flaky_cache fs) = \<lparr>Hits = 0, Misses = 0, Sets = 0, Deletes = 0\<rparr>"
  "faults (redis (flaky_cache fs)) = fs"
  "roundtrips (redis (flaky_cache fs)) = 0"
  "faulty (redis (flaky_cache fs)) = (case fs of [] \<Rightarrow> False | f # x \<Rightarrow> f)"
  by (simp_all add: flaky_cache_def example_cache_simps example_redis_simps faulty_def)

subsection \<open>Delete\<close>

text \<open>
  Claim C9. \<^verbatim>\<open>Delete\<close> with no keys returns nil and leaves the cache as it was: the
  backend (its entries, and its count of round trips, so no command was issued) and every
  statistics counter.
\<close>

theorem Delete_no_keys: "Cache_Delete c [] = (c, None)"
  by (simp add: Cache_Delete_def)

text \<open>
  Claim C4, as the code has it. For \<^verbatim>\<open>Delete\<close> of \<open>n \<ge> 1\<close> keys: when the backend
  call fails, the result is the delete error and nothing but the backend's round trip
  changes, so no counter moves; when the backend answers, \<^verbatim>\<open>Deletes\<close> goes up by one
  (not by \<open>n\<close>) and the other counters stay, the backend reports at most \<open>n\<close>
  deletions, the result is the count-mismatch error exactly when it reports fewer than
  \<open>n\<close>, every requested key is gone from the backend whether or not the error is
  returned, and one round trip was made.
\<close>

theorem Delete_counts_one:
  assumes "keys \<noteq> []"
  shows "(faulty (redis c) \<longrightarrow>
            Cache_Delete c keys = (c\<lparr>redis := roundtrip (redis c)\<rparr>, Some DeleteError))
    \<and> (\<not> faulty (redis c) \<longrightarrow>
          stats (fst (Cache_Delete c keys)) = (stats c)\<lparr>Deletes := Deletes (stats c) + 1\<rparr>
        \<and> snd (Cache_Delete c keys) =
            (if reported c keys < int (length keys)
             then Some (DeleteCountError (length keys) (reported c keys)) else None)
        \<and> reported c keys \<le> int (length keys)
        \<and> (\<forall>k. entries (redis (fst (Cache_Delete c keys))) k =
                 (if k \<in> set (map (createKey c) keys) then None else entries (redis c) k))
        \<and> roundtrips (redis (fst (Cache_Delete c keys))) = roundtrips (redis c) + 1)"
proof (intro conjI impI allI)
  assume "faulty (redis c)"
  with assms show "Cache_Delete c keys = (c\<lparr>redis := roundtrip (redis c)\<rparr>, Some DeleteError)"
    by (rule Cache_Delete_faulty)
next
  assume h: "\<not> faulty (redis c)"
  note D = Cache_Delete_healthy [OF assms h]
  show "stats (fst (Cache_Delete c keys)) = (stats c)\<lparr>Deletes := Deletes (stats c) + 1\<rparr>"
    by (simp add: D incrementStats_def stats_incrementStatsBy)
  show "snd (Cache_Delete c keys) =
            (if reported c keys < int (length keys)
             then Some (DeleteCountError (length keys) (reported c keys)) else None)"
    by (simp add: D reported_def)
  show "reported c keys \<le> int (length keys)"
    using del_keys_bounds [of "entries (redis c)" "map (createKey c) keys"]
    by (simp add: reported_def)
  show "roundtrips (redis (fst (Cache_Delete c keys))) = roundtrips (redis c) + 1"
    by (simp add: D incrementStats_def roundtrip_def)
  fix k
  show "entries (redis (fst (Cache_Delete c keys))) k =
                 (if k \<in> set (map (createKey c) keys) then None else entries (redis c) k)"
    by (simp add: D incrementStats_def del_keys_fst)
qed

lemma reported_example: "reported example_cache [''a'', ''zz''] = 1"
  "reported example_cache [''a'', ''b''] = 2"
  by (simp_all add: reported_def createKey_def example_cache_simps example_redis_def)

theorem Delete_counts_one_witness:
  "stats (fst (Cache_Delete example_cache [''a'', ''zz''])) =
     \<lparr>Hits = 0, Misses = 0, Sets = 0, Deletes = 1\<rparr>
   \<and> snd (Cache_Delete example_cache [''a'', ''zz'']) = Some (DeleteCountError 2 1)
   \<and> entries (redis (fst (Cache_Delete example_cache [''a'', ''zz'']))) ''blueprint:a'' = None"
proof -
  have f: "\<not> faulty (redis example_cache)" by (simp add: example_cache_simps example_redis_simps)
  have n: "[''a'', ''zz''] \<noteq> []" by simp
  from Delete_counts_one [OF n, of example_cache] f show ?thesis
    by (simp add: reported_example example_cache_simps createKey_def)
qed

text \<open>
  The claim as stated fails: deleting two keys that both exist succeeds and adds one to
  \<^verbatim>\<open>Deletes\<close>, not two; and a \<^verbatim>\<open>Delete\<close> whose backend call fails adds nothing.
\<close>

theorem Delete_counts_keys_counterexample:
  "snd (Cache_Delete example_cache [''a'', ''b'']) = None
   \<and> Deletes (stats (fst (Cache_Delete example_cache [''a'', ''b'']))) = Deletes (stats example_cache) + 1
   \<and> Deletes (stats (fst (Cache_Delete example_cache [''a'', ''b'']))) \<noteq> Deletes (stats example_cache) + 2
   \<and> snd (Cache_Delete (flaky_cache [True]) [''a'']) = Some DeleteError
   \<and> Deletes (stats (fst (Cache_Delete (flaky_cache [True]) [''a'']))) = Deletes (stats (flaky_cache [True]))"
  by (simp add: Cache_Delete_def redis_Del_def Let_def example_cache_simps example_redis_def
      createKey_def incrementStats_def incrementStatsBy_def faulty_def roundtrip_def
      flaky_cache_def)

text \<open>
  Claim C5, as the code has it. With a backend that answers, \<^verbatim>\<open>Delete\<close> of keys of
  which one is absent returns the count-mismatch error, the backend having reported fewer
  deletions than keys, and adds one to \<^verbatim>\<open>Deletes\<close>; in particular the second of two
  \<^verbatim>\<open>Delete\<close> calls for the same key returns that error with zero deletions reported,
  and the two calls add two to \<^verbatim>\<open>Deletes\<close>, one for each key requested.
\<close>

theorem Delete_absent_key:
  assumes "\<not> faulty (redis c)"
  shows "(k \<in> set keys \<and> entries (redis c) (createKey c k) = None \<longrightarrow>
            snd (Cache_Delete c keys) = Some (DeleteCountError (length keys) (reported c keys))
          \<and> reported c keys < int (length keys)
          \<and> Deletes (stats (fst (Cache_Delete c keys))) = Deletes (stats c) + 1)
    \<and> (\<not> faulty (roundtrip (redis c)) \<longrightarrow>
          snd (Cache_Delete (fst (Cache_Delete c [k])) [k]) = Some (DeleteCountError 1 0)
        \<and> Deletes (stats (fst (Cache_Delete (fst (Cache_Delete c [k])) [k]))) = Deletes (stats c) + 2)"
proof (intro conjI impI)
  assume a: "k \<in> set keys \<and> entries (redis c) (createKey c k) = None"
  then have ne: "keys \<noteq> []" by auto
  note D = Cache_Delete_healthy [OF ne assms]
  have "createKey c k \<in> set (map (createKey c) keys)" using a by simp
  then have "snd (del_keys (entries (redis c)) (map (createKey c) keys)) < int (length (map (createKey c) keys))"
    using a by (intro del_keys_absent) auto
  then show r: "reported c keys < int (length keys)" by (simp add: reported_def)
  show "snd (Cache_Delete c keys) = Some (DeleteCountError (length keys) (reported c keys))"
    using r by (simp add: D reported_def)
  show "Deletes (stats (fst (Cache_Delete c keys))) = Deletes (stats c) + 1"
    by (simp add: D incrementStats_def stats_incrementStatsBy)
next
  assume f2: "\<not> faulty (roundtrip (redis c))"
  let ?c1 = "fst (Cache_Delete c [k])"
  have ne: "[k] \<noteq> []" by simp
  note D1 = Cache_Delete_healthy [OF ne assms]
  have r1: "redis ?c1 = (roundtrip (redis c))\<lparr>entries := fst (del_keys (entries (redis c)) [createKey c k])\<rparr>"
    by (simp add: D1 incrementStats_def del: del_keys.simps)
  have f1: "\<not> faulty (redis ?c1)" using f2 unfolding r1 by (simp add: faulty_def)
  have k1: "createKey ?c1 k = createKey c k"
    by (simp add: D1 incrementStats_def createKey_def incrementStatsBy_def)
  have e1: "entries (redis ?c1) (createKey ?c1 k) = None"
    unfolding k1 r1 by (simp add: del_keys_fst del: del_keys.simps)
  note D2 = Cache_Delete_healthy [OF ne f1]
  have d2: "del_keys (entries (redis ?c1)) [createKey ?c1 k] = (entries (redis ?c1), 0)"
    using e1 by simp
  show "snd (Cache_Delete ?c1 [k]) = Some (DeleteCountError 1 0)"
    unfolding D2 by (simp add: d2 del: del_keys.simps)
  have "Deletes (stats (fst (Cache_Delete ?c1 [k]))) = Deletes (stats ?c1) + 1"
    unfolding D2 by (simp add: incrementStats_def stats_incrementStatsBy)
  moreover have "Deletes (stats ?c1) = Deletes (stats c) + 1"
    unfolding D1 by (simp add: incrementStats_def stats_incrementStatsBy)
  ultimately show "Deletes (stats (fst (Cache_Delete ?c1 [k]))) = Deletes (stats c) + 2" by simp
qed

theorem Delete_absent_key_witness:
  "snd (Cache_Delete example_cache [''zz'']) = Some (DeleteCountError 1 0)
   \<and> Deletes (stats (fst (Cache_Delete example_cache [''zz'']))) = 1
   \<and> snd (Cache_Delete (fst (Cache_Delete example_cache [''a''])) [''a'']) = Some (DeleteCountError 1 0)"
proof -
  have f: "\<not> faulty (redis example_cache)" by (simp add: example_cache_simps example_redis_simps)
  have f2: "\<not> faulty (roundtrip (redis example_cache))"
    by (simp add: example_cache_simps example_redis_simps faulty_def roundtrip_def)
  have a: "''zz'' \<in> set [''zz''] \<and> entries (redis example_cache) (createKey example_cache ''zz'') = None"
    by (simp add: createKey_def example_cache_simps example_redis_simps)
  have r: "reported example_cache [''zz''] = 0"
    by (simp add: reported_def createKey_def example_cache_simps example_redis_simps)
  from Delete_absent_key [OF f, of "''zz''" "[''zz'']"] a r
  have "snd (Cache_Delete example_cache [''zz'']) = Some (DeleteCountError 1 0)
     \<and> Deletes (stats (fst (Cache_Delete example_cache [''zz'']))) = 1"
    by (simp add: example_cache_simps)
  moreover from Delete_absent_key [OF f, of "''a''" "[]"] f2
  have "snd (Cache_Delete (fst (Cache_Delete example_cache [''a''])) [''a'']) = Some (DeleteCountError 1 0)"
    by blast
  ultimately show ?thesis by simp
qed

text \<open>The claim as stated fails: the second \<^verbatim>\<open>Delete\<close> of a key returns an error.\<close>

theorem Delete_twice_counterexample:
  "snd (Cache_Delete example_cache [''a'']) = None
   \<and> snd (Cache_Delete (fst (Cache_Delete example_cache [''a''])) [''a'']) = Some (DeleteCountError 1 0)"
  by (simp add: Cache_Delete_def redis_Del_def Let_def example_cache_simps example_redis_def
      createKey_def incrementStats_def incrementStatsBy_def faulty_def roundtrip_def)

subsection \<open>Get\<close>

text \<open>
  Claim C3, as the code has it. When the backend answers \<^verbatim>\<open>Get\<close> with a payload that
  does not deserialize, \<^verbatim>\<open>Get\<close> returns the unmarshal error, which is neither the
  not-found error nor the fetch error, and leaves every counter as it was: the fetch is
  counted neither as a hit nor as a miss.
\<close>

theorem Get_undecodable:
  assumes "\<not> faulty (redis c)"
    and "entries (redis c) (createKey c key) = Some (data, ttl)"
    and "Unmarshal js data = None"
  shows "Cache_Get c js key = (c\<lparr>redis := roundtrip (redis c)\<rparr>, Inl UnmarshalError)
    \<and> stats (fst (Cache_Get c js key)) = stats c
    \<and> UnmarshalError \<noteq> NotFound (createKey c key)
    \<and> UnmarshalError \<noteq> GetError (createKey c key)"
  using assms by (simp add: Cache_Get_def redis_Get_def Let_def)

theorem Get_undecodable_witness:
  "Cache_Get example_cache example_json ''b'' =
     (example_cache\<lparr>redis := roundtrip (redis example_cache)\<rparr>, Inl UnmarshalError)
   \<and> stats (fst (Cache_Get example_cache example_json ''b'')) = stats example_cache"
proof -
  have f: "\<not> faulty (redis example_cache)" by (simp add: example_cache_simps example_redis_simps)
  have e: "entries (redis example_cache) (createKey example_cache ''b'') = Some (''two'', 3600)"
    by (simp add: createKey_def example_cache_simps example_redis_simps)
  have u: "Unmarshal example_json ''two'' = None" by (simp add: example_json_def)
  from Get_undecodable [OF f e u] show ?thesis by simp
qed

text \<open>The claim as stated fails: \<^verbatim>\<open>Hits\<close> is not incremented.\<close>

theorem Get_undecodable_hit_counterexample:
  "snd (Cache_Get example_cache example_json ''b'') = Inl UnmarshalError
   \<and> Hits (stats (fst (Cache_Get example_cache example_json ''b''))) \<noteq> Hits (stats example_cache) + 1"
  by (simp add: Cache_Get_def redis_Get_def Let_def createKey_def example_cache_simps
      example_redis_simps example_json_def)

subsection \<open>Set and SetWithTTL\<close>

declare Set_loop.simps [simp del]

lemma failures_simps [simp]:
  "failures 0 fs = 0"
  "failures m [] = 0"
  "failures (Suc m) (f # fs) = (if f then Suc (failures m fs) else 0)"
  by (simp_all add: failures_def)

lemma failures_le: "failures m fs \<le> m"
  unfolding failures_def
  by (rule order_trans [OF length_takeWhile_le]) simp

lemma backoff_empty [simp]: "hi < lo \<Longrightarrow> backoff lo hi = []"
  by (simp add: backoff_def)

lemma sint_word_of_int_64:
  fixes x :: int
  assumes "- (2 ^ 63) \<le> x" and "x < 2 ^ 63"
  shows "sint (word_of_int x :: 64 word) = x"
  using assms by (simp add: sint_sbintrunc' signed_take_bit_int_eq_self)

lemma sint_time_Second: "sint time_Second = 1000000000"
  by (simp add: time_Second_def)

lemma formatSec_sint:
  "sint (formatSec d) =
     (if 0 < sint d \<and> sint d < 1000000000 then 1 else sint d sdiv 1000000000)"
proof -
  have lo: "- (2 ^ 63) \<le> sint d" and hi: "sint d < 2 ^ 63"
    using sint_greater_eq [of d] sint_less [of d] by simp_all
  have b1: "- (2 ^ 63) \<le> sint d sdiv 1000000000"
    using lo by (simp add: signed_divide_int_def sgn_if) linarith?
  have b2: "sint d sdiv 1000000000 < 2 ^ 63"
    using hi by (simp add: signed_divide_int_def sgn_if) linarith?
  show ?thesis
    using sint_word_of_int_64 [OF b1 b2]
    by (simp add: formatSec_def int64_div_def sint_time_Second)
qed

lemma formatSec_refused: "sint (formatSec d) \<le> 0 \<longleftrightarrow> sint d \<le> 0"
proof (cases "sint d \<le> 0")
  case True
  then have "0 \<le> (- sint d) div 1000000000" by simp
  then show ?thesis using True
    by (simp add: formatSec_sint signed_divide_int_def sgn_if)
next
  case False
  then have p: "0 < sint d" by simp
  show ?thesis
  proof (cases "sint d < 1000000000")
    case True
    then show ?thesis using p by (simp add: formatSec_sint)
  next
    case False
    then have "0 < sint d div 1000000000" by (simp add: pos_imp_zdiv_pos_iff)
    then show ?thesis using p False
      by (simp add: formatSec_sint signed_divide_int_def sgn_if)
  qed
qed

lemma redis_SetEx_cases:
  "redis_SetEx r key data ttl =
     (if faulty r then (roundtrip r, Some redis_Failure)
      else if sint ttl \<le> 0 then (roundtrip r, Some redis_InvalidExpire)
      else ((roundtrip r)\<lparr>entries := (entries r)(key \<mapsto> (data, formatSec ttl))\<rparr>, None))"
  by (simp add: redis_SetEx_def formatSec_refused)

lemma backoff_step:
  "(if i < n - 1 then sl @ [retryDelay * word_of_int (i + 1)] else sl)
     @ backoff (i + 1 + 1) (min (i + 1 + int x) (n - 1)) =
   sl @ backoff (i + 1) (min (i + int (Suc x)) (n - 1))"
proof (cases "i < n - 1")
  case True
  then have "i + 1 \<le> min (i + int (Suc x)) (n - 1)" by simp
  then have "backoff (i + 1) (min (i + int (Suc x)) (n - 1)) =
      retryDelay * word_of_int (i + 1) # backoff (i + 1 + 1) (min (i + int (Suc x)) (n - 1))"
    unfolding backoff_def by (subst upto_rec1) simp_all
  moreover have "i + 1 + int x = i + int (Suc x)" by simp
  ultimately show ?thesis using True by (simp add: add.assoc)
next
  case False
  then have "backoff (i + 1 + 1) (min (i + 1 + int x) (n - 1)) = []"
    and "backoff (i + 1) (min (i + int (Suc x)) (n - 1)) = []"
    by (simp_all add: backoff_def)
  then show ?thesis using False by simp
qed

lemma Set_loop_result:
  "m = nat (maxRetries c - i) \<Longrightarrow> 0 < sint (expiration c) \<Longrightarrow>
   Set_loop c fk d i le sl =
     (if failures m (faults (redis c)) < m then
        (incrementStats
           (c\<lparr>redis := (redis c)\<lparr>
                faults := drop (Suc (failures m (faults (redis c)))) (faults (redis c)),
                roundtrips := roundtrips (redis c) + Suc (failures m (faults (redis c))),
                entries := (entries (redis c))(fk \<mapsto> (d, formatSec (expiration c)))\<rparr>\<rparr>) ''sets'',
         sl @ backoff (i + 1) (min (i + int (failures m (faults (redis c)))) (maxRetries c - 1)),
         None)
      else
        (c\<lparr>redis := (redis c)\<lparr>faults := drop m (faults (redis c)),
                roundtrips := roundtrips (redis c) + m\<rparr>\<rparr>,
         sl @ backoff (i + 1) (min (i + int m) (maxRetries c - 1)),
         if m = 0 then map_option (\<lambda>e. SetRetriesError fk (maxRetries c)) le
         else Some (SetRetriesError fk (maxRetries c))))"
proof (induction m arbitrary: c i le sl)
  case 0
  then have "\<not> i < maxRetries c" by simp
  then show ?case by (subst Set_loop.simps) simp
next
  case (Suc m)
  then have lt: "i < maxRetries c" and m: "m = nat (maxRetries c - (i + 1))"
    and ok: "\<not> sint (expiration c) \<le> 0" by simp_all
  show ?case
  proof (cases "faults (redis c)")
    case Nil
    then have nf: "\<not> faulty (redis c)" by (simp add: faulty_def)
    show ?thesis
      using lt nf Nil ok
      by (subst Set_loop.simps) (simp add: redis_SetEx_cases roundtrip_def)
  next
    case (Cons f fs)
    show ?thesis
    proof (cases f)
      case False
      then have nf: "\<not> faulty (redis c)" using Cons by (simp add: faulty_def)
      show ?thesis
        using lt nf Cons False ok
        by (subst Set_loop.simps) (simp add: redis_SetEx_cases roundtrip_def)
    next
      case True
      then have ft: "faulty (redis c)" using Cons by (simp add: faulty_def)
      let ?c1 = "c\<lparr>redis := roundtrip (redis c)\<rparr>"
      let ?sl1 = "if i < maxRetries c - 1 then sl @ [retryDelay * word_of_int (i + 1)] else sl"
      have step: "Set_loop c fk d i le sl = Set_loop ?c1 fk d (i + 1) (Some redis_Failure) ?sl1"
        using lt ft by (subst Set_loop.simps) (simp add: redis_SetEx_cases)
      have m1: "m = nat (maxRetries ?c1 - (i + 1))" using m by simp
      have ok1: "0 < sint (expiration ?c1)" using ok by simp
      have fl: "faults (redis ?c1) = fs" using Cons by (simp add: roundtrip_def)
      have IH: "Set_loop ?c1 fk d (i + 1) (Some redis_Failure) ?sl1 =
        (if failures m fs < m then
        (incrementStats
           (?c1\<lparr>redis := (redis ?c1)\<lparr>
                faults := drop (Suc (failures m fs)) fs,
                roundtrips := roundtrips (redis ?c1) + Suc (failures m fs),
                entries := (entries (redis ?c1))(fk \<mapsto> (d, formatSec (expiration ?c1)))\<rparr>\<rparr>) ''sets'',
         ?sl1 @ backoff (i + 1 + 1) (min (i + 1 + int (failures m fs)) (maxRetries c - 1)),
         None)
      else
        (?c1\<lparr>redis := (redis ?c1)\<lparr>faults := drop m fs,
                roundtrips := roundtrips (redis ?c1) + m\<rparr>\<rparr>,
         ?sl1 @ backoff (i + 1 + 1) (min (i + 1 + int m) (maxRetries c - 1)),
         if m = 0 then map_option (\<lambda>e. SetRetriesError fk (maxRetries c)) (Some redis_Failure)
         else Some (SetRetriesError fk (maxRetries c))))"
        using Suc.IH [OF m1 ok1, of "Some redis_Failure" ?sl1] by (simp only: fl) simp
      show ?thesis
        unfolding step IH backoff_step
        using Cons True
        by (simp add: roundtrip_def fun_upd_def)
    qed
  qed
qed

lemma Set_loop_refused:
  "m = nat (maxRetries c - i) \<Longrightarrow> sint (expiration c) \<le> 0 \<Longrightarrow>
   Set_loop c fk d i le sl =
     (c\<lparr>redis := (redis c)\<lparr>faults := drop m (faults (redis c)),
             roundtrips := roundtrips (redis c) + m\<rparr>\<rparr>,
      sl @ backoff (i + 1) (min (i + int m) (maxRetries c - 1)),
      if m = 0 then map_option (\<lambda>e. SetRetriesError fk (maxRetries c)) le
      else Some (SetRetriesError fk (maxRetries c)))"
proof (induction m arbitrary: c i le sl)
  case 0
  then have "\<not> i < maxRetries c" by simp
  then show ?case by (subst Set_loop.simps) simp
next
  case (Suc m)
  then have lt: "i < maxRetries c" and m: "m = nat (maxRetries c - (i + 1))"
    and no: "sint (expiration c) \<le> 0" by simp_all
  let ?c1 = "c\<lparr>redis := roundtrip (redis c)\<rparr>"
  let ?e = "if faulty (redis c) then redis_Failure else redis_InvalidExpire"
  let ?sl1 = "if i < maxRetries c - 1 then sl @ [retryDelay * word_of_int (i + 1)] else sl"
  have step: "Set_loop c fk d i le sl = Set_loop ?c1 fk d (i + 1) (Some ?e) ?sl1"
    using lt no by (subst Set_loop.simps) (simp add: redis_SetEx_cases)
  have m1: "m = nat (maxRetries ?c1 - (i + 1))" using m by simp
  have no1: "sint (expiration ?c1) \<le> 0" using no by simp
  have IH: "Set_loop ?c1 fk d (i + 1) (Some ?e) ?sl1 =
     (?c1\<lparr>redis := (redis ?c1)\<lparr>faults := drop m (faults (redis ?c1)),
             roundtrips := roundtrips (redis ?c1) + m\<rparr>\<rparr>,
      ?sl1 @ backoff (i + 1 + 1) (min (i + 1 + int m) (maxRetries c - 1)),
      Some (SetRetriesError fk (maxRetries c)))"
    using Suc.IH [OF m1 no1, of "Some ?e" ?sl1] by simp
  show ?case
    unfolding step IH backoff_step
    by (simp add: roundtrip_def)
qed

lemma Cache_Set_result:
  assumes "Marshal js v = Some data"
    and "k = (if 0 < sint (expiration c) then failures (nat (maxRetries c)) (faults (redis c))
              else nat (maxRetries c))"
  shows "Cache_Set c js key v =
     (if k < nat (maxRetries c) then
        (incrementStats
           (c\<lparr>redis := (redis c)\<lparr>
                faults := drop (Suc k) (faults (redis c)),
                roundtrips := roundtrips (redis c) + Suc k,
                entries := (entries (redis c))(createKey c key \<mapsto> (data, formatSec (expiration c)))\<rparr>\<rparr>) ''sets'',
         backoff 1 (min (int k) (maxRetries c - 1)),
         None)
      else
        (c\<lparr>redis := (redis c)\<lparr>faults := drop (nat (maxRetries c)) (faults (redis c)),
                roundtrips := roundtrips (redis c) + nat (maxRetries c)\<rparr>\<rparr>,
         backoff 1 (min (int (nat (maxRetries c))) (maxRetries c - 1)),
         if nat (maxRetries c) = 0 then None
         else Some (SetRetriesError (createKey c key) (maxRetries c))))"
proof (cases "0 < sint (expiration c)")
  case True
  then show ?thesis
    using assms Set_loop_result [of "nat (maxRetries c)" c 0 "createKey c key" data None "[]"]
    by (simp add: Cache_Set_def)
next
  case False
  then have "sint (expiration c) \<le> 0" by simp
  then show ?thesis
    using assms False Set_loop_refused [of "nat (maxRetries c)" c 0 "createKey c key" data None "[]"]
    by (simp add: Cache_Set_def)
qed

lemma Cache_SetWithTTL_result:
  assumes "Marshal js v = Some data"
  shows "Cache_SetWithTTL c js key v ttl =
     (if faulty (redis c) \<or> sint ttl \<le> 0
      then (c\<lparr>redis := roundtrip (redis c)\<rparr>, Some (SetError (createKey c key)))
      else (incrementStats
              (c\<lparr>redis := (roundtrip (redis c))\<lparr>entries :=
                    (entries (redis c))(createKey c key \<mapsto> (data, formatSec ttl))\<rparr>\<rparr>)
              ''sets'', None))"
  using assms by (simp add: Cache_SetWithTTL_def redis_SetEx_cases Let_def)

text \<open>
  Claim C6. An attempt of \<^verbatim>\<open>Set\<close> or \<^verbatim>\<open>SetWithTTL\<close> fails when the backend call
  fails or when the server refuses the time to live because it is not positive. Let
  \<open>k\<close> be the number of failing attempts of \<^verbatim>\<open>Set\<close> before the first success among
  its \<open>maxRetries\<close> attempts, with \<open>maxRetries\<close> at least one (3 in \<^verbatim>\<open>NewCache\<close>):
  the leading faults of the script when the default expiration is positive (one hour in
  \<^verbatim>\<open>NewCache\<close>), and \<open>maxRetries\<close> otherwise. When the value does not serialize,
  \<^verbatim>\<open>Set\<close> and \<^verbatim>\<open>SetWithTTL\<close> return the marshal error and change nothing. Otherwise
  \<^verbatim>\<open>Set\<close> makes \<open>min (k + 1) maxRetries\<close> attempts, sleeps \<open>retryDelay * j\<close> after
  the \<open>j\<close>-th failed attempt except the last possible one, returns an error only when
  all \<open>maxRetries\<close> attempts failed, and adds one to \<^verbatim>\<open>Sets\<close> and stores the payload
  with the default expiration, in whole seconds, only when an attempt succeeded;
  \<^verbatim>\<open>SetWithTTL\<close> makes one attempt, returns its error when that attempt fails, and adds
  one to \<^verbatim>\<open>Sets\<close> and stores the payload with the given time to live, in whole seconds,
  only when it succeeded.
\<close>

theorem Set_retries_SetWithTTL_once:
  assumes "1 \<le> maxRetries c"
    and "Cache_Set c js key v = (c1, slept, err1)"
    and "Cache_SetWithTTL c js key v ttl = (c2, err2)"
    and "k = (if 0 < sint (expiration c) then failures (nat (maxRetries c)) (faults (redis c))
              else nat (maxRetries c))"
  shows "(Marshal js v = None \<longrightarrow>
            c1 = c \<and> slept = [] \<and> err1 = Some MarshalError \<and> c2 = c \<and> err2 = Some MarshalError)
    \<and> (\<forall>data. Marshal js v = Some data \<longrightarrow>
          roundtrips (redis c1) = roundtrips (redis c) + min (Suc k) (nat (maxRetries c))
        \<and> slept = backoff 1 (min (int k) (maxRetries c - 1))
        \<and> err1 = (if int k < maxRetries c then None
                   else Some (SetRetriesError (createKey c key) (maxRetries c)))
        \<and> stats c1 = (if int k < maxRetries c then (stats c)\<lparr>Sets := Sets (stats c) + 1\<rparr> else stats c)
        \<and> entries (redis c1) =
            (if int k < maxRetries c
             then (entries (redis c))(createKey c key \<mapsto> (data, formatSec (expiration c)))
             else entries (redis c))
        \<and> roundtrips (redis c2) = roundtrips (redis c) + 1
        \<and> err2 = (if faulty (redis c) \<or> sint ttl \<le> 0 then Some (SetError (createKey c key))
                   else None)
        \<and> stats c2 = (if faulty (redis c) \<or> sint ttl \<le> 0 then stats c
                      else (stats c)\<lparr>Sets := Sets (stats c) + 1\<rparr>)
        \<and> entries (redis c2) =
            (if faulty (redis c) \<or> sint ttl \<le> 0 then entries (redis c)
             else (entries (redis c))(createKey c key \<mapsto> (data, formatSec ttl))))"
proof (intro conjI impI allI)
  assume n: "Marshal js v = None"
  from assms(2) n show "c1 = c" "slept = []" "err1 = Some MarshalError"
    by (simp_all add: Cache_Set_def)
  from assms(3) n show "c2 = c" "err2 = Some MarshalError"
    by (simp_all add: Cache_SetWithTTL_def)
next
  fix data
  assume s: "Marshal js v = Some data"
  have kn: "k \<le> nat (maxRetries c)" unfolding assms(4) by (simp add: failures_le)
  have lt: "int k < maxRetries c \<longleftrightarrow> k < nat (maxRetries c)" using assms(1) by auto
  note S = Cache_Set_result [OF s assms(4), of key]
  have c1: "c1 = fst (Cache_Set c js key v)" and sl: "slept = fst (snd (Cache_Set c js key v))"
    and e1: "err1 = snd (snd (Cache_Set c js key v))" using assms(2) by simp_all
  note T = Cache_SetWithTTL_result [OF s, of c key ttl]
  have c2: "c2 = fst (Cache_SetWithTTL c js key v ttl)"
    and e2: "err2 = snd (Cache_SetWithTTL c js key v ttl)" using assms(3) by simp_all
  show "roundtrips (redis c1) = roundtrips (redis c) + min (Suc k) (nat (maxRetries c))"
    unfolding c1 S using kn by (simp add: incrementStats_def)
  show "slept = backoff 1 (min (int k) (maxRetries c - 1))"
    unfolding sl S using kn assms(1) by (auto simp: min_def)
  show "err1 = (if int k < maxRetries c then None
                   else Some (SetRetriesError (createKey c key) (maxRetries c)))"
    unfolding e1 S lt using assms(1) by simp
  show "stats c1 = (if int k < maxRetries c then (stats c)\<lparr>Sets := Sets (stats c) + 1\<rparr> else stats c)"
    unfolding c1 S lt by (simp add: incrementStats_def stats_incrementStatsBy)
  show "entries (redis c1) =
            (if int k < maxRetries c
             then (entries (redis c))(createKey c key \<mapsto> (data, formatSec (expiration c)))
             else entries (redis c))"
    unfolding c1 S lt by (simp add: incrementStats_def)
  show "roundtrips (redis c2) = roundtrips (redis c) + 1"
    unfolding c2 T by (simp add: incrementStats_def roundtrip_def)
  show "err2 = (if faulty (redis c) \<or> sint ttl \<le> 0 then Some (SetError (createKey c key))
                   else None)"
    unfolding e2 T by simp
  show "stats c2 = (if faulty (redis c) \<or> sint ttl \<le> 0 then stats c
                      else (stats c)\<lparr>Sets := Sets (stats c) + 1\<rparr>)"
    unfolding c2 T by (simp add: incrementStats_def stats_incrementStatsBy)
  show "entries (redis c2) =
            (if faulty (redis c) \<or> sint ttl \<le> 0 then entries (redis c)
             else (entries (redis c))(createKey c key \<mapsto> (data, formatSec ttl)))"
    unfolding c2 T by (simp add: incrementStats_def roundtrip_def)
qed

lemma formatSec_examples:
  "formatSec time_Hour = 3600"
  "formatSec 300000000000 = 300"
  "formatSec 7 = 1"
  "0 < sint time_Hour"
  by (simp_all add: formatSec_def time_Hour_def time_Second_def int64_div_def signed_divide_int_def)

theorem Set_retries_SetWithTTL_once_witness:
  "Cache_Set (flaky_cache [True, True, True]) example_json ''k'' \<lparr>Msg = ''v''\<rparr> =
     (fst (Cache_Set (flaky_cache [True, True, True]) example_json ''k'' \<lparr>Msg = ''v''\<rparr>),
      [100000000, 200000000], Some (SetRetriesError ''blueprint:k'' 3))
   \<and> roundtrips (redis (fst (Cache_Set (flaky_cache [True, True, True]) example_json ''k'' \<lparr>Msg = ''v''\<rparr>))) = 3
   \<and> Sets (stats (fst (Cache_Set (flaky_cache [True, True, True]) example_json ''k'' \<lparr>Msg = ''v''\<rparr>))) = 0
   \<and> Cache_Set (flaky_cache [True, False]) example_json ''k'' \<lparr>Msg = ''v''\<rparr> =
     (fst (Cache_Set (flaky_cache [True, False]) example_json ''k'' \<lparr>Msg = ''v''\<rparr>), [100000000], None)
   \<and> Sets (stats (fst (Cache_Set (flaky_cache [True, False]) example_json ''k'' \<lparr>Msg = ''v''\<rparr>))) = 1
   \<and> entries (redis (fst (Cache_Set (flaky_cache [True, False]) example_json ''k'' \<lparr>Msg = ''v''\<rparr>)))
        ''blueprint:k'' = Some (''{v'', 3600)
   \<and> snd (Cache_SetWithTTL (flaky_cache [True, False]) example_json ''k'' \<lparr>Msg = ''v''\<rparr> 300000000000) =
       Some (SetError ''blueprint:k'')
   \<and> roundtrips (redis (fst (Cache_SetWithTTL (flaky_cache [True, False]) example_json ''k''
        \<lparr>Msg = ''v''\<rparr> 300000000000))) = 1
   \<and> snd (Cache_SetWithTTL (flaky_cache []) example_json ''k'' \<lparr>Msg = ''v''\<rparr> 300000000000) = None
   \<and> Sets (stats (fst (Cache_SetWithTTL (flaky_cache []) example_json ''k'' \<lparr>Msg = ''v''\<rparr> 300000000000))) = 1
   \<and> entries (redis (fst (Cache_SetWithTTL (flaky_cache []) example_json ''k'' \<lparr>Msg = ''v''\<rparr> 300000000000)))
        ''blueprint:k'' = Some (''{v'', 300)
   \<and> snd (Cache_SetWithTTL (flaky_cache []) example_json ''k'' \<lparr>Msg = ''v''\<rparr> 0) =
       Some (SetError ''blueprint:k'')
   \<and> Sets (stats (fst (Cache_SetWithTTL (flaky_cache []) example_json ''k'' \<lparr>Msg = ''v''\<rparr> 0))) = 0"
proof -
  let ?v = "\<lparr>Msg = ''v''\<rparr>"
  let ?c = "flaky_cache [True, True, True]"
  let ?S = "Cache_Set ?c example_json ''k'' ?v"
  let ?T = "Cache_SetWithTTL ?c example_json ''k'' ?v 0"
  let ?d = "flaky_cache [True, False]"
  let ?U = "Cache_Set ?d example_json ''k'' ?v"
  let ?V = "Cache_SetWithTTL ?d example_json ''k'' ?v 300000000000"
  let ?e = "flaky_cache []"
  let ?W = "Cache_Set ?e example_json ''k'' ?v"
  let ?X = "Cache_SetWithTTL ?e example_json ''k'' ?v 300000000000"
  let ?Y = "Cache_SetWithTTL ?e example_json ''k'' ?v 0"
  have j: "Marshal example_json ?v = Some ''{v''" by (simp add: example_json_def)
  have b2: "backoff 1 2 = [100000000, 200000000]"
    by (simp add: backoff_def retryDelay_def time_Millisecond_def upto_rec1)
  have b1: "backoff 1 1 = [100000000]"
    by (simp add: backoff_def retryDelay_def time_Millisecond_def upto_rec1)
  have m: "1 \<le> maxRetries (flaky_cache fs)" for fs by (simp add: flaky_cache_simps)
  have p: "P = (fst P, fst (snd P), snd (snd P))"
    for P :: "Cache \<times> duration list \<times> cache_error option" by simp
  have q: "Q = (fst Q, snd Q)" for Q :: "Cache \<times> cache_error option" by simp
  have k3: "(3::nat) = (if 0 < sint (expiration ?c) then failures (nat (maxRetries ?c)) (faults (redis ?c))
      else nat (maxRetries ?c))"
    by (simp add: flaky_cache_simps failures_def formatSec_examples)
  have k1: "(1::nat) = (if 0 < sint (expiration ?d) then failures (nat (maxRetries ?d)) (faults (redis ?d))
      else nat (maxRetries ?d))"
    by (simp add: flaky_cache_simps failures_def formatSec_examples)
  have k0: "(0::nat) = (if 0 < sint (expiration ?e) then failures (nat (maxRetries ?e)) (faults (redis ?e))
      else nat (maxRetries ?e))"
    by (simp add: flaky_cache_simps failures_def formatSec_examples)
  from Set_retries_SetWithTTL_once [OF m p [of ?S] q [of ?T] k3] j
  have A: "fst (snd ?S) = [100000000, 200000000]
      \<and> snd (snd ?S) = Some (SetRetriesError ''blueprint:k'' 3)
      \<and> roundtrips (redis (fst ?S)) = 3 \<and> Sets (stats (fst ?S)) = 0"
    by (simp add: flaky_cache_simps createKey_def b2)
  from Set_retries_SetWithTTL_once [OF m p [of ?U] q [of ?V] k1] j
  have B: "fst (snd ?U) = [100000000] \<and> snd (snd ?U) = None \<and> Sets (stats (fst ?U)) = 1
      \<and> entries (redis (fst ?U)) ''blueprint:k'' = Some (''{v'', 3600)
      \<and> snd ?V = Some (SetError ''blueprint:k'') \<and> roundtrips (redis (fst ?V)) = 1"
    by (simp add: flaky_cache_simps createKey_def b1 formatSec_examples)
  from Set_retries_SetWithTTL_once [OF m p [of ?W] q [of ?X] k0] j
  have C: "snd ?X = None \<and> Sets (stats (fst ?X)) = 1
      \<and> entries (redis (fst ?X)) ''blueprint:k'' = Some (''{v'', 300)"
    by (simp add: flaky_cache_simps createKey_def formatSec_examples)
  from Set_retries_SetWithTTL_once [OF m p [of ?W] q [of ?Y] k0] j
  have D: "snd ?Y = Some (SetError ''blueprint:k'') \<and> Sets (stats (fst ?Y)) = 0"
    by (simp add: flaky_cache_simps createKey_def)
  have A': "?S = (fst ?S, [100000000, 200000000], Some (SetRetriesError ''blueprint:k'' 3))"
    using A by (metis p)
  have B': "?U = (fst ?U, [100000000], None)" using B by (metis p)
  from A A' B B' C D show ?thesis by blast
qed

subsection \<open>GetBatch\<close>

lemma zip_replies:
  "zip keys (map (get_reply r) (map f keys)) = map (\<lambda>k. (k, get_reply r (f k))) keys"
  by (induction keys) simp_all

lemma collect_replies:
  "collect js (map (\<lambda>k. (k, get_reply (redis c) (createKey c k))) keys) (dest, h, m) =
     ((\<lambda>x. if x \<in> set keys \<and> decoded c js x \<noteq> None then decoded c js x else dest x),
      h + of_nat (length (filter (\<lambda>k. decoded c js k \<noteq> None) keys)),
      m + of_nat (length (filter (\<lambda>k. fetched c k = None) keys)))"
proof (induction keys arbitrary: dest h m)
  case Nil
  then show ?case by simp
next
  case (Cons k keys)
  show ?case
  proof (cases "entries (redis c) (createKey c k)")
    case None
    then have "get_reply (redis c) (createKey c k) = Inl redis_Nil"
      and "fetched c k = None" and "decoded c js k = None"
      by (simp_all add: get_reply_def fetched_def decoded_def)
    then show ?thesis by (auto simp: Cons.IH fun_eq_iff)
  next
    case (Some e)
    obtain d ttl where e: "e = (d, ttl)" by (cases e)
    have g: "get_reply (redis c) (createKey c k) = Inr d" and f: "fetched c k = Some d"
      and dd: "decoded c js k = Unmarshal js d"
      using Some e by (simp_all add: get_reply_def fetched_def decoded_def)
    show ?thesis
    proof (cases "Unmarshal js d")
      case None
      then show ?thesis using g f dd by (auto simp: Cons.IH fun_eq_iff)
    next
      case (Some v)
      then show ?thesis using g f dd by (auto simp: Cons.IH fun_eq_iff)
    qed
  qed
qed

lemma first_error_replies:
  "first_error (map (get_reply r) ks) = None \<or> first_error (map (get_reply r) ks) = Some redis_Nil"
  by (induction ks) (auto simp: get_reply_def split: option.splits)

lemma Cache_GetBatch_healthy:
  assumes "\<not> faulty (redis c)"
  shows "Cache_GetBatch c js keys dest =
    (incrementStatsBy
       (incrementStatsBy (c\<lparr>redis := (if keys = [] then redis c else roundtrip (redis c))\<rparr>) ''hits''
          (of_nat (length (filter (\<lambda>k. decoded c js k \<noteq> None) keys))))
       ''misses'' (of_nat (length (filter (\<lambda>k. fetched c k = None) keys))),
     (\<lambda>x. if x \<in> set keys \<and> decoded c js x \<noteq> None then decoded c js x else dest x),
     None)"
proof (cases "keys = []")
  case True
  then show ?thesis by (simp add: Cache_GetBatch_def redis_Pipeline_Get_def)
next
  case False
  have fe: "\<not> (first_error (map (get_reply (redis c)) (map (createKey c) keys)) \<noteq> None
      \<and> first_error (map (get_reply (redis c)) (map (createKey c) keys)) \<noteq> Some redis_Nil)"
    using first_error_replies [of "redis c" "map (createKey c) keys"] by auto
  show ?thesis
    using False assms fe
    by (simp add: Cache_GetBatch_def redis_Pipeline_Get_def Let_def zip_replies collect_replies
        del: map_map)
qed

text \<open>
  Claim C10. When the pipeline itself does not fail, \<^verbatim>\<open>GetBatch\<close> returns nil; it
  adds to \<^verbatim>\<open>Hits\<close> the number of requested keys whose payload deserializes and to
  \<^verbatim>\<open>Misses\<close> the number of requested keys that are absent, and leaves the other
  counters; the destination map gets the value of every requested key that deserializes
  and is otherwise as before. So a requested key whose payload is fetched but does not
  deserialize is counted in neither number and its entry in the destination map is left
  as it was.
\<close>

theorem GetBatch_undecodable:
  assumes "\<not> faulty (redis c)"
    and "Cache_GetBatch c js keys dest = (c', dest', err)"
  shows "err = None
    \<and> Hits (stats c') = Hits (stats c) + of_nat (length (filter (\<lambda>k. decoded c js k \<noteq> None) keys))
    \<and> Misses (stats c') = Misses (stats c) + of_nat (length (filter (\<lambda>k. fetched c k = None) keys))
    \<and> Sets (stats c') = Sets (stats c) \<and> Deletes (stats c') = Deletes (stats c)
    \<and> (\<forall>k. dest' k = (if k \<in> set keys \<and> decoded c js k \<noteq> None then decoded c js k else dest k))
    \<and> (\<forall>k \<in> set keys. fetched c k \<noteq> None \<and> decoded c js k = None \<longrightarrow> dest' k = dest k)"
proof -
  note G = Cache_GetBatch_healthy [OF assms(1), of js keys dest]
  from assms(2) have c': "c' = fst (Cache_GetBatch c js keys dest)"
    and d': "dest' = fst (snd (Cache_GetBatch c js keys dest))"
    and e: "err = snd (snd (Cache_GetBatch c js keys dest))" by simp_all
  show ?thesis
    unfolding c' d' e G
    by (simp add: incrementStatsBy_def)
qed

theorem GetBatch_undecodable_witness:
  "snd (snd (Cache_GetBatch example_cache example_json [''a'', ''b'', ''zz''] Map.empty)) = None
   \<and> Hits (stats (fst (Cache_GetBatch example_cache example_json [''a'', ''b'', ''zz''] Map.empty))) = 1
   \<and> Misses (stats (fst (Cache_GetBatch example_cache example_json [''a'', ''b'', ''zz''] Map.empty))) = 1
   \<and> fst (snd (Cache_GetBatch example_cache example_json [''a'', ''b'', ''zz''] Map.empty)) ''a'' =
       Some \<lparr>Msg = ''one''\<rparr>
   \<and> fst (snd (Cache_GetBatch example_cache example_json [''a'', ''b'', ''zz''] Map.empty)) ''b'' = None"
proof -
  let ?G = "Cache_GetBatch example_cache example_json [''a'', ''b'', ''zz''] Map.empty"
  have f: "\<not> faulty (redis example_cache)" by (simp add: example_cache_simps example_redis_simps)
  have g: "?G = (fst ?G, fst (snd ?G), snd (snd ?G))" by simp
  have d: "fetched example_cache ''a'' = Some ''{one''" "fetched example_cache ''b'' = Some ''two''"
    "fetched example_cache ''zz'' = None"
    by (simp_all add: fetched_def createKey_def example_cache_simps example_redis_simps)
  have e: "decoded example_cache example_json ''a'' = Some \<lparr>Msg = ''one''\<rparr>"
    "decoded example_cache example_json ''b'' = None"
    "decoded example_cache example_json ''zz'' = None"
    by (simp_all add: decoded_def d example_json_def)
  from GetBatch_undecodable [OF f g]
  show ?thesis by (simp add: d e example_cache_simps)
qed

section \<open>Properties of the request handler\<close>

lemma metrics_Cache_update [simp]: "metrics (b\<lparr>Cache := c\<rparr>) = metrics b"
  by simp

lemma Call_body_counters:
  "TotalRequests (metrics (fst (Call_body b env js req))) = TotalRequests (metrics b)
   \<and> SuccessfulCalls (metrics (fst (Call_body b env js req))) = SuccessfulCalls (metrics b)
   \<and> FailedCalls (metrics (fst (Call_body b env js req))) = FailedCalls (metrics b)
   \<and> AvgResponseTime (metrics (fst (Call_body b env js req))) = AvgResponseTime (metrics b)"
  by (simp add: Call_body_def incrementCacheHit_def incrementCacheMiss_def Let_def
      split: option.splits prod.splits bool.splits sum.splits)

lemma Call_never_panics: "snd (Call b env js req) \<noteq> Panic"
  by (auto simp: Call_def Call_body_def validateRequest_def Let_def case_prod_beta
      split: option.splits bool.splits sum.splits if_splits)

lemma recordMetrics_nil:
  "metrics (recordMetrics b d None) =
     (metrics b)\<lparr>TotalRequests := TotalRequests (metrics b) + 1,
                 SuccessfulCalls := SuccessfulCalls (metrics b) + 1,
                 AvgResponseTime := (if AvgResponseTime (metrics b) = 0 then d
                                     else int64_div (AvgResponseTime (metrics b) + d) 2)\<rparr>"
  by (simp add: recordMetrics_def Let_def)

lemma Call_invalid:
  assumes "validateRequest req = Some msg"
  shows "Call b env js req = (recordMetrics b (elapsed env) None, Error (Status InvalidArgument msg))"
  using assms by (simp add: Call_def Call_body_def)

text \<open>
  Claim C2 against the code. The deferred hook runs once and adds one to
  \<^verbatim>\<open>TotalRequests\<close>, and the average becomes the sample when it was zero and
  \<open>(avg + sample) / 2\<close> otherwise; but the hook passes a nil error to
  \<^verbatim>\<open>recordMetrics\<close>, so every call adds one to \<^verbatim>\<open>SuccessfulCalls\<close> and none to
  \<^verbatim>\<open>FailedCalls\<close>. In particular a call with an empty name returns
  \<^verbatim>\<open>InvalidArgument\<close> and is counted as successful.
\<close>

theorem Call_never_counts_failure:
  "snd (Call b env js (Some \<lparr>Name = ''''\<rparr>)) = Error (Status InvalidArgument ''name is required'')
   \<and> FailedCalls (metrics (fst (Call b env js (Some \<lparr>Name = ''''\<rparr>)))) = FailedCalls (metrics b)
   \<and> SuccessfulCalls (metrics (fst (Call b env js (Some \<lparr>Name = ''''\<rparr>)))) = SuccessfulCalls (metrics b) + 1
   \<and> TotalRequests (metrics (fst (Call b env js req))) = TotalRequests (metrics b) + 1
   \<and> SuccessfulCalls (metrics (fst (Call b env js req))) = SuccessfulCalls (metrics b) + 1
   \<and> FailedCalls (metrics (fst (Call b env js req))) = FailedCalls (metrics b)
   \<and> AvgResponseTime (metrics (fst (Call b env js req))) =
       (if AvgResponseTime (metrics b) = 0 then elapsed env
        else int64_div (AvgResponseTime (metrics b) + elapsed env) 2)"
proof -
  have v: "validateRequest (Some \<lparr>Name = ''''\<rparr>) = Some ''name is required''"
    by (simp add: validateRequest_def)
  have m: "metrics (fst (Call b env js req)) =
      (metrics (fst (Call_body b env js req)))\<lparr>
         TotalRequests := TotalRequests (metrics (fst (Call_body b env js req))) + 1,
         SuccessfulCalls := SuccessfulCalls (metrics (fst (Call_body b env js req))) + 1,
         AvgResponseTime := (if AvgResponseTime (metrics (fst (Call_body b env js req))) = 0 then elapsed env
              else int64_div (AvgResponseTime (metrics (fst (Call_body b env js req))) + elapsed env) 2)\<rparr>"
    by (simp add: Call_def case_prod_beta recordMetrics_nil)
  show ?thesis
    unfolding m Call_invalid [OF v]
    using Call_body_counters [of b env js req]
    by (simp add: recordMetrics_nil)
qed

lemma validateRequest_None:
  "validateRequest req = None \<longleftrightarrow> (\<exists>r. req = Some r \<and> Name r \<noteq> [] \<and> length (Name r) \<le> 100)"
  by (auto simp: validateRequest_def split: option.splits)

lemma Call_body_valid_not_InvalidArgument:
  assumes "validateRequest req = None"
  shows "snd (Call_body b env js req) \<noteq> Error (Status InvalidArgument msg)"
  using assms
  by (auto simp: Call_body_def Let_def processBusinessLogic_def
      split: option.splits prod.splits bool.splits sum.splits if_splits)

text \<open>
  Claim C7, as the code has it. \<^verbatim>\<open>Call\<close> returns an \<^verbatim>\<open>InvalidArgument\<close> error exactly
  when the request is nil, the name is empty, or the name is longer than 100 bytes; and a
  request that passes validation, is admitted by the rate limiter, finds no usable cache
  entry and meets no cancelled context gets the message
  \<open>Hello <name> from Forex Platform\<close>.
\<close>

theorem Call_validation_and_message:
  "((\<exists>msg. snd (Call b env js req) = Error (Status InvalidArgument msg)) \<longleftrightarrow>
      (req = None \<or> (\<exists>r. req = Some r \<and> (Name r = [] \<or> 100 < length (Name r)))))
   \<and> (\<forall>r. req = Some r \<and> Name r \<noteq> [] \<and> length (Name r) \<le> 100
          \<and> snd (checkRateLimit (rateLimiter b) (Name r) (clock env))
          \<and> isl (snd (Cache_Get (Cache b) js (''call:'' @ Name r)))
          \<and> \<not> cancelled env
        \<longrightarrow> snd (Call b env js req) = Response \<lparr>Msg = ''Hello '' @ Name r @ '' from Forex Platform''\<rparr>)"
proof (intro conjI allI impI)
  have s: "snd (Call b env js req) = snd (Call_body b env js req)"
    by (simp add: Call_def case_prod_beta)
  show "(\<exists>msg. snd (Call b env js req) = Error (Status InvalidArgument msg)) \<longleftrightarrow>
      (req = None \<or> (\<exists>r. req = Some r \<and> (Name r = [] \<or> 100 < length (Name r))))"
  proof (cases "validateRequest req")
    case None
    then have "\<not> (\<exists>msg. snd (Call b env js req) = Error (Status InvalidArgument msg))"
      unfolding s using Call_body_valid_not_InvalidArgument by blast
    moreover from None have "\<not> (req = None \<or> (\<exists>r. req = Some r \<and> (Name r = [] \<or> 100 < length (Name r))))"
      by (auto simp: validateRequest_None)
    ultimately show ?thesis by blast
  next
    case (Some msg)
    then have "snd (Call b env js req) = Error (Status InvalidArgument msg)"
      by (simp add: Call_invalid)
    moreover from Some have "req = None \<or> (\<exists>r. req = Some r \<and> (Name r = [] \<or> 100 < length (Name r)))"
      by (auto simp: validateRequest_def split: option.splits if_splits)
    ultimately show ?thesis by blast
  qed
  fix r
  assume h: "req = Some r \<and> Name r \<noteq> [] \<and> length (Name r) \<le> 100
          \<and> snd (checkRateLimit (rateLimiter b) (Name r) (clock env))
          \<and> isl (snd (Cache_Get (Cache b) js (''call:'' @ Name r)))
          \<and> \<not> cancelled env"
  then have v: "validateRequest req = None" by (simp add: validateRequest_None)
  from h obtain rl where rl: "checkRateLimit (rateLimiter b) (Name r) (clock env) = (rl, True)"
    by (cases "checkRateLimit (rateLimiter b) (Name r) (clock env)") auto
  from h obtain c e where g: "Cache_Get (Cache b) js (''call:'' @ Name r) = (c, Inl e)"
    by (cases "Cache_Get (Cache b) js (''call:'' @ Name r)") (auto simp: isl_def)
  show "snd (Call b env js req) = Response \<lparr>Msg = ''Hello '' @ Name r @ '' from Forex Platform''\<rparr>"
    unfolding s using h v rl g
    by (simp add: Call_body_def Let_def processBusinessLogic_def case_prod_beta)
qed

theorem Call_validation_and_message_witness:
  "snd (Call (NewBlueprint example_cache) example_env example_json (Some \<lparr>Name = ''Alice''\<rparr>)) =
     Response \<lparr>Msg = ''Hello Alice from Forex Platform''\<rparr>
   \<and> (\<exists>msg. snd (Call (NewBlueprint example_cache) example_env example_json None) =
         Error (Status InvalidArgument msg))"
proof -
  let ?b = "NewBlueprint example_cache"
  have a: "snd (checkRateLimit (rateLimiter ?b) ''Alice'' (clock example_env))"
    by (simp add: NewBlueprint_def NewRateLimiter_def checkRateLimit_def)
  have g: "isl (snd (Cache_Get (Cache ?b) example_json (''call:'' @ ''Alice'')))"
    by (simp add: NewBlueprint_def Cache_Get_def redis_Get_def Let_def createKey_def
        example_cache_simps example_redis_def faulty_def)
  have c: "\<not> cancelled example_env" by (simp add: example_env_def)
  have h: "Some \<lparr>Name = ''Alice''\<rparr> = Some \<lparr>Name = ''Alice''\<rparr>
      \<and> Name \<lparr>Name = ''Alice''\<rparr> \<noteq> [] \<and> length (Name \<lparr>Name = ''Alice''\<rparr>) \<le> 100
      \<and> snd (checkRateLimit (rateLimiter ?b) (Name \<lparr>Name = ''Alice''\<rparr>) (clock example_env))
      \<and> isl (snd (Cache_Get (Cache ?b) example_json (''call:'' @ Name \<lparr>Name = ''Alice''\<rparr>)))
      \<and> \<not> cancelled example_env"
    using a g c by simp
  have "snd (Call ?b example_env example_json (Some \<lparr>Name = ''Alice''\<rparr>)) =
     Response \<lparr>Msg = ''Hello '' @ Name \<lparr>Name = ''Alice''\<rparr> @ '' from Forex Platform''\<rparr>"
    using Call_validation_and_message [of ?b example_env example_json "Some \<lparr>Name = ''Alice''\<rparr>"] h
    by blast
  moreover have "\<exists>msg. snd (Call ?b example_env example_json None) = Error (Status InvalidArgument msg)"
    using Call_validation_and_message [of ?b example_env example_json None] by blast
  ultimately show ?thesis by simp
qed

text \<open>
  The claim as stated fails: a name of 51 two-byte characters is within 100 characters,
  and \<^verbatim>\<open>Call\<close> returns \<^verbatim>\<open>InvalidArgument\<close> for it.
\<close>

theorem Call_name_length_counterexample:
  "characters (concat (replicate 51 [CHR 0xC3, CHR 0xA9])) = 51
   \<and> snd (Call (NewBlueprint example_cache) example_env example_json
            (Some \<lparr>Name = concat (replicate 51 [CHR 0xC3, CHR 0xA9])\<rparr>)) =
       Error (Status InvalidArgument ''name is too long'')"
proof -
  have "characters (concat (replicate 51 [CHR 0xC3, CHR 0xA9])) = 51" by code_simp
  moreover have "validateRequest (Some \<lparr>Name = concat (replicate 51 [CHR 0xC3, CHR 0xA9])\<rparr>) =
      Some ''name is too long''" by code_simp
  ultimately show ?thesis by (simp add: Call_invalid)
qed

end
